theory Spec2Isabelle
  imports Main "HOL-Library.Multiset"
begin

section \<open>Package pjutil: helpers for working with ProwJobs\<close>

text \<open>
  A shallow embedding of \<^verbatim>\<open>prow/pjutil/pjutil.go\<close>. The packages \<^verbatim>\<open>kube\<close> and
  \<^verbatim>\<open>config\<close> declare the data types; of each struct only the fields that
  \<^verbatim>\<open>pjutil.go\<close> reads or writes are modelled. A run-time panic of the Go code is
  the left summand of the result; so is a channel send that would block for ever.
\<close>

subsection \<open>Go run-time conditions\<close>

datatype go_panic =
  IndexOutOfRange | NilPointerDereference | MakeChanSizeOutOfRange | SendOnClosedChannel |
  SendBlocksForever

text \<open>\<^verbatim>\<open>xs[i]\<close> on a slice: a run-time panic when \<open>i\<close> is out of range.\<close>

definition go_index :: "'a list \<Rightarrow> nat \<Rightarrow> go_panic + 'a" where
  "go_index xs i = (if i < length xs then Inr (xs ! i) else Inl IndexOutOfRange)"

text \<open>\<^verbatim>\<open>*p\<close> on a pointer: a run-time panic when \<open>p\<close> is nil.\<close>

definition go_deref :: "'a option \<Rightarrow> go_panic + 'a" where
  "go_deref p = (case p of None \<Rightarrow> Inl NilPointerDereference | Some v \<Rightarrow> Inr v)"

subsection \<open>Standard library: time.Time, strconv.Itoa\<close>

text \<open>
  A \<^verbatim>\<open>time.Time\<close> is read as its instant, in nanoseconds from the zero instant
  (the zero value of the type, January 1 of year 1, UTC); an instant before it is
  negative. \<^verbatim>\<open>t.After(u)\<close> reports whether \<open>t\<close> is strictly after \<open>u\<close>.
\<close>

type_synonym Time = int

definition zero_Time :: Time where
  "zero_Time = 0"

definition After :: "Time \<Rightarrow> Time \<Rightarrow> bool" where
  "After t u = (u < t)"

fun decimal :: "nat \<Rightarrow> string" where
  "decimal n =
     (if n < 10 then [''0123456789'' ! n]
      else decimal (n div 10) @ [''0123456789'' ! (n mod 10)])"

declare decimal.simps [simp del]

definition Itoa :: "int \<Rightarrow> string" where
  "Itoa i = (if i < 0 then ''-'' @ decimal (nat (- i)) else decimal (nat i))"

subsection \<open>Package kube: the data model\<close>

text \<open>
  A job type is a string in Go: \<^verbatim>\<open>pjutil.go\<close> converts it with
  \<^verbatim>\<open>string(pj.Spec.Type)\<close>, and the zero value of a job spec has the empty string as its
  type. Modelled from the spec: the four job type constants, which package \<^verbatim>\<open>kube\<close>
  declares and \<^verbatim>\<open>pjutil.go\<close> only names; the spec's data model has the job-type tags
  Presubmit, Postsubmit, Periodic and Batch. The properties below use of the four strings
  only that they are pairwise distinct and that none is empty.
\<close>

type_synonym ProwJobType = string

definition PresubmitJob :: ProwJobType where
  "PresubmitJob = ''presubmit''"

definition PostsubmitJob :: ProwJobType where
  "PostsubmitJob = ''postsubmit''"

definition PeriodicJob :: ProwJobType where
  "PeriodicJob = ''periodic''"

definition BatchJob :: ProwJobType where
  "BatchJob = ''batch''"

text \<open>
  Modelled from the spec: the job states, which package \<^verbatim>\<open>kube\<close> declares. The spec
  has the lifecycle states Triggered, Pending, Success, Failure, Error and Aborted;
  \<^verbatim>\<open>pjutil.go\<close> compares a state with \<^verbatim>\<open>kube.PendingState\<close> only.
\<close>

datatype ProwJobState =
  TriggeredState | PendingState | SuccessState | FailureState | AbortedState | ErrorState

text \<open>
  Modelled from the spec: the identifier of the container-based agent (the agent of a job
  is a string, and \<^verbatim>\<open>kube.KubernetesAgent\<close> is one of its values), the keys of the two
  labels that mark a pod as created by this system and give its job type, and the key of
  the annotation that records the job name. Package \<^verbatim>\<open>kube\<close> declares the four
  constants; no property below depends on the strings chosen for them here.
\<close>

definition KubernetesAgent :: string where
  "KubernetesAgent = ''kubernetes''"

definition CreatedByProw :: string where
  "CreatedByProw = ''created-by-prow''"

definition ProwJobTypeLabel :: string where
  "ProwJobTypeLabel = ''prow.k8s.io/type''"

definition ProwJobAnnotation :: string where
  "ProwJobAnnotation = ''prow.k8s.io/job''"

record Pull =
  Number :: int
  SHA :: string

record Refs =
  Org :: string
  Repo :: string
  BaseRef :: string
  BaseSHA :: string
  Pulls :: "Pull list"

definition zero_Refs :: Refs where
  "zero_Refs = \<lparr>Org = [], Repo = [], BaseRef = [], BaseSHA = [], Pulls = []\<rparr>"

record EnvVar =
  EnvName :: string
  EnvValue :: string

text \<open>
  A container: the two fields the package touches; the remaining fields of
  \<^verbatim>\<open>kube.Container\<close> are the record's extension \<open>'c\<close>, which a field update keeps.
  The field \<^verbatim>\<open>Env\<close> is a slice of \<^verbatim>\<open>kube.EnvVar\<close>. Its type \<open>'e\<close> is \<open>slice\<close>
  (below), a reference into memory, for \<open>ProwJobToPod\<close>, which appends to it; the other
  functions only copy it. It is \<open>EnvVar list\<close> for what a container holds when its slice
  is read through the memory.
\<close>

record 'e Container =
  Name :: string
  Env :: 'e

record ('e, 'c) PodSpec =
  Containers :: "('e, 'c) Container_scheme list"
  RestartPolicy :: string

definition zero_PodSpec :: "('e, 'c) PodSpec" where
  "zero_PodSpec = \<lparr>Containers = [], RestartPolicy = []\<rparr>"

datatype ('e, 'c) ProwJobSpec = ProwJobSpec
  (Type: ProwJobType)
  (Agent: string)
  (Job: string)
  (Refs: Refs)
  (Report: bool)
  (Context: string)
  (RerunCommand: string)
  (MaxConcurrency: int)
  (PodSpec: "('e, 'c) PodSpec")
  (RunAfterSuccess: "('e, 'c) ProwJobSpec list")

record ObjectMeta =
  MetaName :: string
  Labels :: "string \<rightharpoonup> string"
  Annotations :: "string \<rightharpoonup> string"

record ProwJobStatus =
  StartTime :: Time
  State :: ProwJobState

record ('e, 'c) ProwJob =
  APIVersion :: string
  Kind :: string
  Metadata :: ObjectMeta
  Spec :: "('e, 'c) ProwJobSpec"
  Status :: ProwJobStatus

record ('e, 'c) Pod =
  PodMetadata :: ObjectMeta
  PodSpecOf :: "('e, 'c) PodSpec"

subsection \<open>Package config: job templates\<close>

text \<open>
  \<^verbatim>\<open>config.Presubmit\<close>, \<^verbatim>\<open>config.Postsubmit\<close> and \<^verbatim>\<open>config.Periodic\<close>. The field
  \<^verbatim>\<open>Spec\<close> is a pointer to a pod spec (the builders read \<^verbatim>\<open>*p.Spec\<close>), so it may
  be nil.
\<close>

datatype ('e, 'c) Presubmit = Presubmit
  (pre_Name: string)
  (pre_Agent: string)
  (pre_Spec: "('e, 'c) PodSpec option")
  (pre_Context: string)
  (pre_RerunCommand: string)
  (pre_SkipReport: bool)
  (pre_MaxConcurrency: int)
  (pre_RunAfterSuccess: "('e, 'c) Presubmit list")

datatype ('e, 'c) Postsubmit = Postsubmit
  (post_Name: string)
  (post_Agent: string)
  (post_Spec: "('e, 'c) PodSpec option")
  (post_MaxConcurrency: int)
  (post_RunAfterSuccess: "('e, 'c) Postsubmit list")

datatype ('e, 'c) Periodic = Periodic
  (per_Name: string)
  (per_Agent: string)
  (per_Spec: "('e, 'c) PodSpec option")
  (per_RunAfterSuccess: "('e, 'c) Periodic list")

subsection \<open>The spec builders\<close>

text \<open>
  \<^verbatim>\<open>for _, nextP := range p.RunAfterSuccess { pjs.RunAfterSuccess =
  append(pjs.RunAfterSuccess, build(nextP)) }\<close>: the results of the recursive calls are
  appended in order; the first call that panics ends the loop.
\<close>

fun append_each :: "(go_panic + 'a) list \<Rightarrow> 'a list \<Rightarrow> go_panic + 'a list" where
  "append_each [] acc = Inr acc"
| "append_each (r # rs) acc =
     (case r of Inl e \<Rightarrow> Inl e | Inr s \<Rightarrow> append_each rs (acc @ [s]))"

text \<open>
  \<^verbatim>\<open>pjs.Agent = kube.ProwJobAgent(p.Agent); if pjs.Agent == kube.KubernetesAgent
  { pjs.PodSpec = *p.Spec }\<close>: the pod spec of the job spec under construction, the zero
  value unless the agent is the Kubernetes agent.
\<close>

definition PodSpec_for ::
  "string \<Rightarrow> ('e, 'c) PodSpec option \<Rightarrow> go_panic + ('e, 'c) PodSpec" where
  "PodSpec_for agent spec =
     (if agent = KubernetesAgent then go_deref spec else Inr zero_PodSpec)"

fun PresubmitSpec :: "('e, 'c) Presubmit \<Rightarrow> Refs \<Rightarrow> go_panic + ('e, 'c) ProwJobSpec" where
  "PresubmitSpec (Presubmit name agent spec context rerun skip maxc ras) refs =
     (case PodSpec_for agent spec of
        Inl e \<Rightarrow> Inl e
      | Inr podspec \<Rightarrow>
          (case append_each (map (\<lambda>nextP. PresubmitSpec nextP refs) ras) [] of
             Inl e \<Rightarrow> Inl e
           | Inr followups \<Rightarrow>
               Inr (ProwJobSpec PresubmitJob agent name refs (\<not> skip) context rerun maxc
                      podspec followups)))"

fun PostsubmitSpec :: "('e, 'c) Postsubmit \<Rightarrow> Refs \<Rightarrow> go_panic + ('e, 'c) ProwJobSpec" where
  "PostsubmitSpec (Postsubmit name agent spec maxc ras) refs =
     (case PodSpec_for agent spec of
        Inl e \<Rightarrow> Inl e
      | Inr podspec \<Rightarrow>
          (case append_each (map (\<lambda>nextP. PostsubmitSpec nextP refs) ras) [] of
             Inl e \<Rightarrow> Inl e
           | Inr followups \<Rightarrow>
               Inr (ProwJobSpec PostsubmitJob agent name refs False [] [] maxc
                      podspec followups)))"

fun PeriodicSpec :: "('e, 'c) Periodic \<Rightarrow> go_panic + ('e, 'c) ProwJobSpec" where
  "PeriodicSpec (Periodic name agent spec ras) =
     (case PodSpec_for agent spec of
        Inl e \<Rightarrow> Inl e
      | Inr podspec \<Rightarrow>
          (case append_each (map (\<lambda>nextP. PeriodicSpec nextP) ras) [] of
             Inl e \<Rightarrow> Inl e
           | Inr followups \<Rightarrow>
               Inr (ProwJobSpec PeriodicJob agent name zero_Refs False [] [] 0
                      podspec followups)))"

fun BatchSpec :: "('e, 'c) Presubmit \<Rightarrow> Refs \<Rightarrow> go_panic + ('e, 'c) ProwJobSpec" where
  "BatchSpec (Presubmit name agent spec context rerun skip maxc ras) refs =
     (case PodSpec_for agent spec of
        Inl e \<Rightarrow> Inl e
      | Inr podspec \<Rightarrow>
          (case append_each (map (\<lambda>nextP. BatchSpec nextP refs) ras) [] of
             Inl e \<Rightarrow> Inl e
           | Inr followups \<Rightarrow>
               Inr (ProwJobSpec BatchJob agent name refs False context [] 0
                      podspec followups)))"

subsection \<open>Well-formed templates and follow-up chains\<close>

text \<open>
  A template is well formed when, in it and in every template of its run-after-success
  chain, a Kubernetes agent comes with a pod spec.
\<close>

fun wf_Presubmit :: "('e, 'c) Presubmit \<Rightarrow> bool" where
  "wf_Presubmit (Presubmit name agent spec context rerun skip maxc ras) =
     ((agent = KubernetesAgent \<longrightarrow> spec \<noteq> None) \<and> list_all wf_Presubmit ras)"

fun wf_Postsubmit :: "('e, 'c) Postsubmit \<Rightarrow> bool" where
  "wf_Postsubmit (Postsubmit name agent spec maxc ras) =
     ((agent = KubernetesAgent \<longrightarrow> spec \<noteq> None) \<and> list_all wf_Postsubmit ras)"

fun wf_Periodic :: "('e, 'c) Periodic \<Rightarrow> bool" where
  "wf_Periodic (Periodic name agent spec ras) =
     ((agent = KubernetesAgent \<longrightarrow> spec \<noteq> None) \<and> list_all wf_Periodic ras)"

text \<open>
  A job spec follows a template: it has the given job type, the template's name and the
  given refs, and its follow-up specs follow the template's follow-up templates, one for
  one and in the same order; so at every depth.
\<close>

fun follows_Presubmit ::
  "ProwJobType \<Rightarrow> Refs \<Rightarrow> ('e, 'c) Presubmit \<Rightarrow> ('e, 'c) ProwJobSpec \<Rightarrow> bool" where
  "follows_Presubmit ty refs (Presubmit name agent spec context rerun skip maxc ras) pjs =
     (Type pjs = ty \<and> Job pjs = name \<and> Refs pjs = refs \<and>
      list_all2 (follows_Presubmit ty refs) ras (RunAfterSuccess pjs))"

fun follows_Postsubmit :: "Refs \<Rightarrow> ('e, 'c) Postsubmit \<Rightarrow> ('e, 'c) ProwJobSpec \<Rightarrow> bool" where
  "follows_Postsubmit refs (Postsubmit name agent spec maxc ras) pjs =
     (Type pjs = PostsubmitJob \<and> Job pjs = name \<and> Refs pjs = refs \<and>
      list_all2 (follows_Postsubmit refs) ras (RunAfterSuccess pjs))"

fun follows_Periodic :: "('e, 'c) Periodic \<Rightarrow> ('e, 'c) ProwJobSpec \<Rightarrow> bool" where
  "follows_Periodic (Periodic name agent spec ras) pjs =
     (Type pjs = PeriodicJob \<and> Job pjs = name \<and> Refs pjs = zero_Refs \<and>
      list_all2 follows_Periodic ras (RunAfterSuccess pjs))"

subsection \<open>EnvForSpec\<close>

text \<open>
  The environment is a Go map from strings to strings. The method \<^verbatim>\<open>Refs.String\<close> of
  package \<^verbatim>\<open>kube\<close>, the serialization of the refs, is the parameter \<open>RefsString\<close>.
  The two reads of \<^verbatim>\<open>spec.Refs.Pulls[0]\<close> are the two \<open>go_index\<close>.
\<close>

definition EnvForSpec ::
  "(Refs \<Rightarrow> string) \<Rightarrow> ('e, 'c) ProwJobSpec \<Rightarrow> go_panic + (string \<rightharpoonup> string)" where
  "EnvForSpec RefsString spec =
     (let env = [''JOB_NAME'' \<mapsto> Job spec] in
      if Type spec = PeriodicJob then Inr env
      else
        let env = env(''REPO_OWNER'' \<mapsto> Org (Refs spec));
            env = env(''REPO_NAME'' \<mapsto> Repo (Refs spec));
            env = env(''PULL_BASE_REF'' \<mapsto> BaseRef (Refs spec));
            env = env(''PULL_BASE_SHA'' \<mapsto> BaseSHA (Refs spec));
            env = env(''PULL_REFS'' \<mapsto> RefsString (Refs spec))
        in
          if Type spec = PostsubmitJob \<or> Type spec = BatchJob then Inr env
          else
            (case go_index (Pulls (Refs spec)) 0 of
               Inl e \<Rightarrow> Inl e
             | Inr pull0 \<Rightarrow>
                 let env = env(''PULL_NUMBER'' \<mapsto> Itoa (Number pull0)) in
                 (case go_index (Pulls (Refs spec)) 0 of
                    Inl e \<Rightarrow> Inl e
                  | Inr pull0 \<Rightarrow> Inr (env(''PULL_PULL_SHA'' \<mapsto> SHA pull0)))))"

subsection \<open>Slices in memory\<close>

text \<open>
  A Go slice is a reference: a pointer into a backing array, a length and a capacity.
  Copying a container copies the slice header of its \<^verbatim>\<open>Env\<close> field, not the array. The
  memory is the list of the backing arrays of \<^verbatim>\<open>[]kube.EnvVar\<close> slices; the address of
  an array is its index. A slice refers to \<open>len\<close> elements of the array \<open>ptr\<close> from index
  \<open>off\<close> on, and \<open>cap\<close> elements from there on belong to it. A nil slice has capacity 0.
\<close>

type_synonym memory = "EnvVar list list"

record slice =
  ptr :: nat
  off :: nat
  len :: nat
  cap :: nat

definition zero_EnvVar :: EnvVar where
  "zero_EnvVar = \<lparr>EnvName = [], EnvValue = []\<rparr>"

text \<open>A slice of a program state: within its capacity, and its capacity within its array.\<close>

definition slice_ok :: "memory \<Rightarrow> slice \<Rightarrow> bool" where
  "slice_ok mem s \<longleftrightarrow>
     len s \<le> cap s \<and>
     (cap s = 0 \<or> (ptr s < length mem \<and> off s + cap s \<le> length (mem ! ptr s)))"

text \<open>The elements of a slice, as \<^verbatim>\<open>range s\<close> or an equality test reads them.\<close>

definition elements :: "memory \<Rightarrow> slice \<Rightarrow> EnvVar list" where
  "elements mem s =
     (if ptr s < length mem then take (len s) (drop (off s) (mem ! ptr s)) else [])"

text \<open>\<^verbatim>\<open>s[i] = v\<close>\<close>

definition slice_assign :: "memory \<Rightarrow> slice \<Rightarrow> nat \<Rightarrow> EnvVar \<Rightarrow> go_panic + memory" where
  "slice_assign mem s i v =
     (if i < len s then Inr (mem[ptr s := (mem ! ptr s)[off s + i := v]])
      else Inl IndexOutOfRange)"

text \<open>
  \<^verbatim>\<open>append(s, vs...)\<close>: when the capacity of \<open>s\<close> suffices, the new elements are written
  into the backing array of \<open>s\<close> behind its elements and the result shares that array.
  Otherwise a new array is allocated and the elements are copied into it; its capacity is
  the run time's choice \<open>growslice\<close> (of the old capacity and the length needed), and at
  least the length needed.
\<close>

definition go_append ::
  "(nat \<Rightarrow> nat \<Rightarrow> nat) \<Rightarrow> memory \<Rightarrow> slice \<Rightarrow> EnvVar list \<Rightarrow> memory \<times> slice" where
  "go_append growslice mem s vs =
     (let n = len s + length vs in
      if n \<le> cap s then
        (mem[ptr s := take (off s + len s) (mem ! ptr s) @ vs @ drop (off s + n) (mem ! ptr s)],
         s\<lparr>len := n\<rparr>)
      else
        let newcap = max n (growslice (cap s) n) in
        (mem @ [elements mem s @ vs @ replicate (newcap - n) zero_EnvVar],
         \<lparr>ptr = length mem, off = 0, len = n, cap = newcap\<rparr>))"

subsection \<open>kubeEnv and ProwJobToPod\<close>

text \<open>
  \<^verbatim>\<open>for key, value := range environment\<close> visits every key of the map once, in an
  order the Go run time chooses anew at each loop. The order of one loop is the list
  \<open>keys\<close>; \<open>range_order\<close> says that a list is such an order.
\<close>

definition range_order :: "('k \<rightharpoonup> 'v) \<Rightarrow> 'k list \<Rightarrow> bool" where
  "range_order m keys \<longleftrightarrow> distinct keys \<and> set keys = dom m"

definition kubeEnv :: "string list \<Rightarrow> (string \<rightharpoonup> string) \<Rightarrow> EnvVar list" where
  "kubeEnv keys environment =
     concat (map (\<lambda>key. case environment key of
                          None \<Rightarrow> []
                        | Some value \<Rightarrow> [\<lparr>EnvName = key, EnvValue = value\<rparr>]) keys)"

text \<open>\<^verbatim>\<open>fmt.Sprintf("%s-%d", name, i)\<close>\<close>

definition Sprintf_name_index :: "string \<Rightarrow> nat \<Rightarrow> string" where
  "Sprintf_name_index name i = name @ ''-'' @ Itoa (int i)"

text \<open>
  The loop \<^verbatim>\<open>for i := range pj.Spec.PodSpec.Containers\<close>, from index \<open>i\<close> on: \<open>cs\<close>
  are the containers not yet visited and \<open>acc\<close> is \<^verbatim>\<open>spec.Containers\<close>. The slice
  \<^verbatim>\<open>spec.Containers\<close> is new and its elements are copies of the containers, so it is a
  list here; the \<^verbatim>\<open>Env\<close> of a copy is the same slice as the \<^verbatim>\<open>Env\<close> of the instance's
  container, and \<^verbatim>\<open>append\<close> works on it in the memory. The call \<^verbatim>\<open>kubeEnv(env)\<close> of
  round \<open>i\<close> visits the keys in the order \<open>order i\<close>; it returns a new slice, read here
  as the list of its elements.
\<close>

fun ProwJobToPod_range ::
  "(nat \<Rightarrow> nat \<Rightarrow> nat) \<Rightarrow> (nat \<Rightarrow> string list) \<Rightarrow> (string \<rightharpoonup> string) \<Rightarrow> string \<Rightarrow>
   memory \<Rightarrow> (slice, 'c) Container_scheme list \<Rightarrow> nat \<Rightarrow> (slice, 'c) Container_scheme list \<Rightarrow>
   memory \<times> (slice, 'c) Container_scheme list" where
  "ProwJobToPod_range growslice order env name mem [] i acc = (mem, acc)"
| "ProwJobToPod_range growslice order env name mem (c # cs) i acc =
     (case go_append growslice mem (Env c) (kubeEnv (order i) env) of
        (mem', env_i) \<Rightarrow>
          ProwJobToPod_range growslice order env name mem' cs (Suc i)
            (acc @ [c\<lparr>Name := Sprintf_name_index name i, Env := env_i\<rparr>]))"

text \<open>
  \<open>ProwJobToPod\<close> returns the pod and the memory after the call. The labels of the pod
  are a new map, filled from the labels of the instance.
\<close>

definition ProwJobToPod ::
  "(nat \<Rightarrow> nat \<Rightarrow> nat) \<Rightarrow> (Refs \<Rightarrow> string) \<Rightarrow> (nat \<Rightarrow> string list) \<Rightarrow> memory \<Rightarrow>
   (slice, 'c) ProwJob \<Rightarrow> string \<Rightarrow> go_panic + (memory \<times> (slice, 'c) Pod)" where
  "ProwJobToPod growslice RefsString order mem pj buildID =
     (case EnvForSpec RefsString (Spec pj) of
        Inl e \<Rightarrow> Inl e
      | Inr env \<Rightarrow>
          let env = env(''BUILD_NUMBER'' \<mapsto> buildID);
              spec = PodSpec (Spec pj);
              spec = spec\<lparr>RestartPolicy := ''Never''\<rparr>;
              spec = spec\<lparr>Containers := []\<rparr>;
              (mem', containers) =
                ProwJobToPod_range growslice order env (MetaName (Metadata pj)) mem
                  (Containers (PodSpec (Spec pj))) 0 (Containers spec);
              spec = spec\<lparr>Containers := containers\<rparr>;
              podLabels = Labels (Metadata pj);
              podLabels = podLabels(CreatedByProw \<mapsto> ''true'');
              podLabels = podLabels(ProwJobTypeLabel \<mapsto> Type (Spec pj))
          in Inr (mem',
                  \<lparr>PodMetadata =
                     \<lparr>MetaName = MetaName (Metadata pj), Labels = podLabels,
                      Annotations = [ProwJobAnnotation \<mapsto> Job (Spec pj)]\<rparr>,
                   PodSpecOf = spec\<rparr>))"

text \<open>
  What a container, a pod spec, a job spec, a job instance and a pod hold when every
  \<^verbatim>\<open>Env\<close> slice in them is read through the memory.
\<close>

definition Container_value ::
  "memory \<Rightarrow> (slice, 'c) Container_scheme \<Rightarrow> (EnvVar list, 'c) Container_scheme" where
  "Container_value mem c =
     \<lparr>Name = Name c, Env = elements mem (Env c), \<dots> = Container.more c\<rparr>"

definition PodSpec_value :: "memory \<Rightarrow> (slice, 'c) PodSpec \<Rightarrow> (EnvVar list, 'c) PodSpec" where
  "PodSpec_value mem spec =
     \<lparr>Containers = map (Container_value mem) (Containers spec),
      RestartPolicy = RestartPolicy spec\<rparr>"

fun ProwJobSpec_value ::
  "memory \<Rightarrow> (slice, 'c) ProwJobSpec \<Rightarrow> (EnvVar list, 'c) ProwJobSpec" where
  "ProwJobSpec_value mem (ProwJobSpec ty agent job refs report context rerun maxc podspec ras) =
     ProwJobSpec ty agent job refs report context rerun maxc (PodSpec_value mem podspec)
       (map (ProwJobSpec_value mem) ras)"

definition ProwJob_value :: "memory \<Rightarrow> (slice, 'c) ProwJob \<Rightarrow> (EnvVar list, 'c) ProwJob" where
  "ProwJob_value mem pj =
     \<lparr>APIVersion = APIVersion pj, Kind = Kind pj, Metadata = Metadata pj,
      Spec = ProwJobSpec_value mem (Spec pj), Status = Status pj\<rparr>"

definition Pod_value :: "memory \<Rightarrow> (slice, 'c) Pod \<Rightarrow> (EnvVar list, 'c) Pod" where
  "Pod_value mem pod =
     \<lparr>PodMetadata = PodMetadata pod, PodSpecOf = PodSpec_value mem (PodSpecOf pod)\<rparr>"

text \<open>The \<^verbatim>\<open>Env\<close> slices of a job spec: those of its containers and of its follow-ups.\<close>

fun Env_slices :: "(slice, 'c) ProwJobSpec \<Rightarrow> slice list" where
  "Env_slices (ProwJobSpec ty agent job refs report context rerun maxc podspec ras) =
     map Env (Containers podspec) @ concat (map Env_slices ras)"

text \<open>A later memory: every array of the earlier one is there, with its length.\<close>

definition extends :: "memory \<Rightarrow> memory \<Rightarrow> bool" where
  "extends mem mem' \<longleftrightarrow>
     length mem \<le> length mem' \<and> (\<forall>a<length mem. length (mem' ! a) = length (mem ! a))"

text \<open>
  The elements of the slice \<open>t\<close> lie outside the spare capacity of the slice \<open>s\<close>, the
  part of its array between its length and its capacity. Every slice is outside its own
  spare capacity.
\<close>

definition outside_spare :: "slice \<Rightarrow> slice \<Rightarrow> bool" where
  "outside_spare s t \<longleftrightarrow>
     len t = 0 \<or> cap s \<le> len s \<or> ptr t \<noteq> ptr s \<or>
     off t + len t \<le> off s + len s \<or> off s + cap s \<le> off t"

text \<open>Two slices whose capacities share no element of an array.\<close>

definition separate :: "slice \<Rightarrow> slice \<Rightarrow> bool" where
  "separate s t \<longleftrightarrow>
     cap s = 0 \<or> cap t = 0 \<or> ptr s \<noteq> ptr t \<or>
     off s + cap s \<le> off t \<or> off t + cap t \<le> off s"

subsection \<open>PartitionPending\<close>

text \<open>
  A buffered channel: its capacity, the values sent and not yet received, and whether it
  is closed. \<^verbatim>\<open>make(chan T, n)\<close> panics for a negative \<open>n\<close>. Nothing receives from
  the two channels before \<^verbatim>\<open>PartitionPending\<close> returns, so a send on a full channel
  would block for ever.
\<close>

record 'a chan =
  capacity :: nat
  buffer :: "'a list"
  closed :: bool

definition make_chan :: "int \<Rightarrow> go_panic + 'a chan" where
  "make_chan n =
     (if n < 0 then Inl MakeChanSizeOutOfRange
      else Inr \<lparr>capacity = nat n, buffer = [], closed = False\<rparr>)"

definition send :: "'a chan \<Rightarrow> 'a \<Rightarrow> go_panic + 'a chan" where
  "send c v =
     (if closed c then Inl SendOnClosedChannel
      else if length (buffer c) < capacity c then Inr (c\<lparr>buffer := buffer c @ [v]\<rparr>)
      else Inl SendBlocksForever)"

definition close :: "'a chan \<Rightarrow> 'a chan" where
  "close c = c\<lparr>closed := True\<rparr>"

text \<open>The first loop: the number of pending jobs.\<close>

fun pendingCount_range :: "int \<Rightarrow> ('e, 'c) ProwJob list \<Rightarrow> int" where
  "pendingCount_range pendingCount [] = pendingCount"
| "pendingCount_range pendingCount (pj # pjs) =
     (if State (Status pj) = PendingState then pendingCount_range (pendingCount + 1) pjs
      else pendingCount_range pendingCount pjs)"

text \<open>The second loop: every job is sent on one of the two channels.\<close>

fun partition_range ::
  "('e, 'c) ProwJob chan \<Rightarrow> ('e, 'c) ProwJob chan \<Rightarrow> ('e, 'c) ProwJob list \<Rightarrow>
   go_panic + (('e, 'c) ProwJob chan \<times> ('e, 'c) ProwJob chan)" where
  "partition_range pending nonPending [] = Inr (pending, nonPending)"
| "partition_range pending nonPending (pj # pjs) =
     (if State (Status pj) = PendingState
      then (case send pending pj of
              Inl e \<Rightarrow> Inl e
            | Inr pending' \<Rightarrow> partition_range pending' nonPending pjs)
      else (case send nonPending pj of
              Inl e \<Rightarrow> Inl e
            | Inr nonPending' \<Rightarrow> partition_range pending nonPending' pjs))"

definition PartitionPending ::
  "('e, 'c) ProwJob list \<Rightarrow> go_panic + (('e, 'c) ProwJob chan \<times> ('e, 'c) ProwJob chan)" where
  "PartitionPending pjs =
     (let pendingCount = pendingCount_range 0 pjs in
      case make_chan pendingCount of
        Inl e \<Rightarrow> Inl e
      | Inr pending \<Rightarrow>
          (case make_chan (int (length pjs) - pendingCount) of
             Inl e \<Rightarrow> Inl e
           | Inr nonPending \<Rightarrow>
               (case partition_range pending nonPending pjs of
                  Inl e \<Rightarrow> Inl e
                | Inr (pending, nonPending) \<Rightarrow> Inr (close pending, close nonPending))))"

subsection \<open>GetLatestPeriodics\<close>

text \<open>
  \<^verbatim>\<open>latestJobs[name].Status.StartTime\<close>: a missing key reads as the zero value of
  \<^verbatim>\<open>kube.ProwJob\<close>, whose start time is the zero instant.
\<close>

definition StartTime_at :: "(string \<rightharpoonup> ('e, 'c) ProwJob) \<Rightarrow> string \<Rightarrow> Time" where
  "StartTime_at latestJobs name =
     (case latestJobs name of None \<Rightarrow> zero_Time | Some j \<Rightarrow> StartTime (Status j))"

text \<open>The body of the loop \<^verbatim>\<open>for _, j := range pjs\<close>, on the map built so far.\<close>

definition GetLatestPeriodics_body ::
  "(string \<rightharpoonup> ('e, 'c) ProwJob) \<Rightarrow> ('e, 'c) ProwJob \<Rightarrow> (string \<rightharpoonup> ('e, 'c) ProwJob)" where
  "GetLatestPeriodics_body latestJobs j =
     (if Type (Spec j) \<noteq> PeriodicJob then latestJobs
      else let name = Job (Spec j) in
        if After (StartTime (Status j)) (StartTime_at latestJobs name)
        then latestJobs(name \<mapsto> j)
        else latestJobs)"

definition GetLatestPeriodics :: "('e, 'c) ProwJob list \<Rightarrow> (string \<rightharpoonup> ('e, 'c) ProwJob)" where
  "GetLatestPeriodics pjs = foldl GetLatestPeriodics_body Map.empty pjs"

text \<open>A Periodic job instance of the job named \<open>n\<close>.\<close>

definition periodic_named :: "string \<Rightarrow> ('e, 'c) ProwJob \<Rightarrow> bool" where
  "periodic_named n j = (Type (Spec j) = PeriodicJob \<and> Job (Spec j) = n)"

subsection \<open>Concrete job instances\<close>

text \<open>A job instance with the given identity, type, job name, start time and state.\<close>

definition example_ProwJob ::
  "string \<Rightarrow> ProwJobType \<Rightarrow> string \<Rightarrow> Time \<Rightarrow> ProwJobState \<Rightarrow> (EnvVar list, unit) ProwJob" where
  "example_ProwJob ident ty name t st =
     \<lparr>APIVersion = ''prow.k8s.io/v1'', Kind = ''ProwJob'',
      Metadata = \<lparr>MetaName = ident, Labels = Map.empty, Annotations = Map.empty\<rparr>,
      Spec = ProwJobSpec ty [] name zero_Refs False [] [] 0 zero_PodSpec [],
      Status = \<lparr>StartTime = t, State = st\<rparr>\<rparr>"

text \<open>Refs with one pull descriptor, a serialization of refs, and a job spec.\<close>

definition example_Refs :: Refs where
  "example_Refs =
     \<lparr>Org = ''kubernetes'', Repo = ''test-infra'', BaseRef = ''master'', BaseSHA = ''abc123'',
      Pulls = [\<lparr>Number = 42, SHA = ''def456''\<rparr>]\<rparr>"

definition example_RefsString :: "Refs \<Rightarrow> string" where
  "example_RefsString refs =
     BaseRef refs @ '':'' @ BaseSHA refs @
     concat (map (\<lambda>pull. '','' @ Itoa (Number pull) @ '':'' @ SHA pull) (Pulls refs))"

text \<open>The zero value \<^verbatim>\<open>kube.ProwJobSpec{}\<close>.\<close>

definition zero_ProwJobSpec :: "(EnvVar list, unit) ProwJobSpec" where
  "zero_ProwJobSpec = ProwJobSpec [] [] [] zero_Refs False [] [] 0 zero_PodSpec []"

definition example_spec :: "ProwJobType \<Rightarrow> Refs \<Rightarrow> (EnvVar list, unit) ProwJobSpec" where
  "example_spec ty refs = ProwJobSpec ty KubernetesAgent ''unit-test'' refs True [] [] 0 zero_PodSpec []"

text \<open>A pod spec with two containers, and a template of each kind with a follow-up chain.\<close>

definition example_PodSpec :: "(EnvVar list, unit) PodSpec" where
  "example_PodSpec =
     \<lparr>Containers =
        [\<lparr>Name = ''test'', Env = [\<lparr>EnvName = ''GOPATH'', EnvValue = ''/go''\<rparr>]\<rparr>,
         \<lparr>Name = ''sidecar'', Env = []\<rparr>],
      RestartPolicy = ''Always''\<rparr>"

definition example_Presubmit :: "(EnvVar list, unit) Presubmit" where
  "example_Presubmit =
     Presubmit ''unit'' KubernetesAgent (Some example_PodSpec) ''ci/unit'' ''/test unit'' False 2
       [Presubmit ''e2e'' ''jenkins'' (Some example_PodSpec) ''ci/e2e'' ''/test e2e'' True 0
          [Presubmit ''soak'' ''jenkins'' None [] [] False 0 []],
        Presubmit ''lint'' KubernetesAgent (Some example_PodSpec) [] [] False 0 []]"

definition example_Postsubmit :: "(EnvVar list, unit) Postsubmit" where
  "example_Postsubmit =
     Postsubmit ''push'' ''jenkins'' (Some example_PodSpec) 1
       [Postsubmit ''publish'' KubernetesAgent (Some example_PodSpec) 0 []]"

definition example_Periodic :: "(EnvVar list, unit) Periodic" where
  "example_Periodic =
     Periodic ''nightly'' KubernetesAgent (Some example_PodSpec)
       [Periodic ''report'' ''jenkins'' None []]"

text \<open>
  Two assignments of an iteration order of the environment map to the rounds of the loop.
\<close>

definition example_order :: "nat \<Rightarrow> string list" where
  "example_order i =
     (if i = 0 then [''JOB_NAME'', ''BUILD_NUMBER''] else [''BUILD_NUMBER'', ''JOB_NAME''])"

definition example_uniform_order :: "nat \<Rightarrow> string list" where
  "example_uniform_order i = [''JOB_NAME'', ''BUILD_NUMBER'']"

text \<open>
  A memory with one array of capacity 4 holding one entry, a Periodic job instance whose
  container has that entry as its \<^verbatim>\<open>Env\<close>, and a growth policy.
\<close>

definition example_memory :: memory where
  "example_memory =
     [[\<lparr>EnvName = ''GOPATH'', EnvValue = ''/go''\<rparr>, zero_EnvVar, zero_EnvVar,
          zero_EnvVar]]"

definition example_mem_ProwJob :: "(slice, unit) ProwJob" where
  "example_mem_ProwJob =
     \<lparr>APIVersion = ''prow.k8s.io/v1'', Kind = ''ProwJob'',
      Metadata = \<lparr>MetaName = ''job-xyz'', Labels = Map.empty, Annotations = Map.empty\<rparr>,
      Spec = ProwJobSpec PeriodicJob KubernetesAgent ''nightly'' zero_Refs False [] [] 0
               \<lparr>Containers = [\<lparr>Name = ''test'', Env = \<lparr>ptr = 0, off = 0, len = 1, cap = 4\<rparr>\<rparr>],
                RestartPolicy = ''Always''\<rparr> [],
      Status = \<lparr>StartTime = 10, State = TriggeredState\<rparr>\<rparr>"

definition example_growslice :: "nat \<Rightarrow> nat \<Rightarrow> nat" where
  "example_growslice old needed = 2 * old"

text \<open>
  A memory and a job instance with two containers whose \<^verbatim>\<open>Env\<close> slices overlap in one
  array.
\<close>

definition example_overlap_memory :: memory where
  "example_overlap_memory =
     [[\<lparr>EnvName = ''GOPATH'', EnvValue = ''/go''\<rparr>,
          \<lparr>EnvName = ''HOME'', EnvValue = ''/root''\<rparr>,
       zero_EnvVar, zero_EnvVar]]"

definition example_overlap_ProwJob :: "(slice, unit) ProwJob" where
  "example_overlap_ProwJob =
     \<lparr>APIVersion = ''prow.k8s.io/v1'', Kind = ''ProwJob'',
      Metadata = \<lparr>MetaName = ''job-xyz'', Labels = Map.empty, Annotations = Map.empty\<rparr>,
      Spec = ProwJobSpec PeriodicJob KubernetesAgent ''nightly'' zero_Refs False [] [] 0
               \<lparr>Containers =
                  [\<lparr>Name = ''test'', Env = \<lparr>ptr = 0, off = 0, len = 1, cap = 4\<rparr>\<rparr>,
                   \<lparr>Name = ''sidecar'', Env = \<lparr>ptr = 0, off = 0, len = 2, cap = 4\<rparr>\<rparr>],
                RestartPolicy = ''Always''\<rparr> [],
      Status = \<lparr>StartTime = 10, State = TriggeredState\<rparr>\<rparr>"

section \<open>The job type constants\<close>

lemma ProwJobType_distinct [simp]:
  "PresubmitJob \<noteq> PostsubmitJob" "PresubmitJob \<noteq> PeriodicJob" "PresubmitJob \<noteq> BatchJob"
  "PostsubmitJob \<noteq> PresubmitJob" "PostsubmitJob \<noteq> PeriodicJob" "PostsubmitJob \<noteq> BatchJob"
  "PeriodicJob \<noteq> PresubmitJob" "PeriodicJob \<noteq> PostsubmitJob" "PeriodicJob \<noteq> BatchJob"
  "BatchJob \<noteq> PresubmitJob" "BatchJob \<noteq> PostsubmitJob" "BatchJob \<noteq> PeriodicJob"
  by (simp_all add: PresubmitJob_def PostsubmitJob_def PeriodicJob_def BatchJob_def)

section \<open>Properties of the spec builders\<close>

lemmas example_templates = example_Presubmit_def example_Postsubmit_def example_Periodic_def
  KubernetesAgent_def PodSpec_for_def go_deref_def

lemma append_each_Inr:
  "append_each rs acc = Inr ys \<longleftrightarrow> map Inr ys = map Inr acc @ rs"
proof (induction rs arbitrary: acc)
  case Nil
  have "map Inr ys = map Inr acc \<longleftrightarrow> ys = acc"
    by (rule inj_map_eq_map) simp
  then show ?case by (simp add: eq_commute)
next
  case (Cons r rs)
  show ?case
  proof (cases r)
    case (Inl e)
    have "Inl e \<notin> set (map Inr ys)" by (simp add: image_iff)
    moreover have "Inl e \<in> set (map Inr acc @ Inl e # rs)" by simp
    ultimately have "map Inr ys \<noteq> map Inr acc @ Inl e # rs" by metis
    then show ?thesis using Inl by simp
  next
    case (Inr s)
    then show ?thesis using Cons.IH [of "acc @ [s]"] by simp
  qed
qed

lemma append_each_map_Inr:
  "append_each (map f xs) [] = Inr ys \<longleftrightarrow> map Inr ys = map f xs"
  by (simp add: append_each_Inr)

lemma append_each_Inl:
  "append_each rs acc = Inl e \<Longrightarrow> Inl e \<in> set rs"
  by (induction rs arbitrary: acc) (auto split: sum.splits)

lemma PodSpec_for_Inr:
  "PodSpec_for agent spec = Inr ps \<longleftrightarrow>
     (if agent = KubernetesAgent then spec = Some ps else ps = zero_PodSpec)"
  by (auto simp: PodSpec_for_def go_deref_def split: option.splits)

lemma PodSpec_for_Inl:
  "PodSpec_for agent spec = Inl e \<longleftrightarrow>
     agent = KubernetesAgent \<and> spec = None \<and> e = NilPointerDereference"
  by (auto simp: PodSpec_for_def go_deref_def split: option.splits)

lemma follow_ups_exist:
  assumes "\<forall>x\<in>set xs. \<exists>s. f x = Inr s \<and> R x s"
  shows "\<exists>ss. append_each (map f xs) [] = Inr ss \<and> list_all2 R xs ss"
proof -
  from assms have "\<exists>ss. map Inr ss = map f xs \<and> list_all2 R xs ss"
  proof (induction xs)
    case Nil
    show ?case by simp
  next
    case (Cons x xs)
    then obtain s ss where "f x = Inr s" "R x s" "map Inr ss = map f xs" "list_all2 R xs ss"
      by auto
    then have "map Inr (s # ss) = map f (x # xs) \<and> list_all2 R (x # xs) (s # ss)"
      by simp
    then show ?case by blast
  qed
  then show ?thesis by (simp add: append_each_map_Inr)
qed

lemma PresubmitSpec_fields:
  assumes "PresubmitSpec p refs = Inr pjs"
  shows "Type pjs = PresubmitJob \<and> Agent pjs = pre_Agent p \<and> Job pjs = pre_Name p \<and>
    Refs pjs = refs \<and> Report pjs = (\<not> pre_SkipReport p) \<and> Context pjs = pre_Context p \<and>
    RerunCommand pjs = pre_RerunCommand p \<and> MaxConcurrency pjs = pre_MaxConcurrency p \<and>
    PodSpec_for (pre_Agent p) (pre_Spec p) = Inr (PodSpec pjs) \<and>
    map Inr (RunAfterSuccess pjs) =
      map (\<lambda>nextP. PresubmitSpec nextP refs) (pre_RunAfterSuccess p)"
proof (cases p)
  case (Presubmit name agent spec ctx rerun skip maxc ras)
  from assms obtain podspec where ps: "PodSpec_for agent spec = Inr podspec"
    unfolding Presubmit by (cases "PodSpec_for agent spec") simp_all
  from assms ps obtain followups where
    fs: "append_each (map (\<lambda>nextP. PresubmitSpec nextP refs) ras) [] = Inr followups"
    unfolding Presubmit
    by (cases "append_each (map (\<lambda>nextP. PresubmitSpec nextP refs) ras) []") simp_all
  from assms ps fs have
    "pjs = ProwJobSpec PresubmitJob agent name refs (\<not> skip) ctx rerun maxc podspec followups"
    unfolding Presubmit by simp
  then show ?thesis
    using ps fs unfolding Presubmit by (simp add: append_each_map_Inr)
qed

lemma PresubmitSpec_wf:
  "wf_Presubmit p \<Longrightarrow>
   \<exists>pjs. PresubmitSpec p refs = Inr pjs \<and> follows_Presubmit PresubmitJob refs p pjs"
proof (induction p refs rule: PresubmitSpec.induct)
  case (1 name agent spec ctx rerun skip maxc ras refs)
  from "1.prems" have "\<exists>podspec. PodSpec_for agent spec = Inr podspec"
    by (cases spec) (simp_all add: PodSpec_for_def go_deref_def)
  then obtain podspec where ps: "PodSpec_for agent spec = Inr podspec" ..
  have "\<forall>nextP\<in>set ras. \<exists>s. PresubmitSpec nextP refs = Inr s \<and>
      follows_Presubmit PresubmitJob refs nextP s"
    using "1.IH" [OF ps] "1.prems" by (simp add: list_all_iff)
  from follow_ups_exist [OF this] obtain followups where
    "append_each (map (\<lambda>nextP. PresubmitSpec nextP refs) ras) [] = Inr followups"
    "list_all2 (follows_Presubmit PresubmitJob refs) ras followups"
    by blast
  then show ?case using ps by simp
qed

lemma PresubmitSpec_not_wf:
  "\<not> wf_Presubmit p \<Longrightarrow> PresubmitSpec p refs = Inl NilPointerDereference"
proof (induction p refs rule: PresubmitSpec.induct)
  case (1 name agent spec ctx rerun skip maxc ras refs)
  show ?case
  proof (cases "PodSpec_for agent spec")
    case (Inl e)
    then have "e = NilPointerDereference" by (simp add: PodSpec_for_Inl)
    with Inl show ?thesis by simp
  next
    case (Inr podspec)
    then have "agent = KubernetesAgent \<longrightarrow> spec \<noteq> None"
      by (auto simp: PodSpec_for_Inr)
    with "1.prems" obtain q where q: "q \<in> set ras" "\<not> wf_Presubmit q"
      by (auto simp: list_all_iff)
    from "1.IH" [OF Inr q] have "Inl NilPointerDereference \<in>
        set (map (\<lambda>nextP. PresubmitSpec nextP refs) ras)"
      using q(1) by (metis image_eqI set_map)
    have "append_each (map (\<lambda>nextP. PresubmitSpec nextP refs) ras) [] = Inl NilPointerDereference"
    proof (cases "append_each (map (\<lambda>nextP. PresubmitSpec nextP refs) ras) []")
      case (Inl e)
      from append_each_Inl [OF this] obtain r where "r \<in> set ras" "PresubmitSpec r refs = Inl e"
        by auto
      moreover from this have "\<not> wf_Presubmit r"
        using PresubmitSpec_wf [of r refs] by auto
      ultimately have "e = NilPointerDereference" using "1.IH" [OF Inr, of r] by simp
      with Inl show ?thesis by simp
    next
      case (Inr ss)
      then have "map Inr ss = map (\<lambda>nextP. PresubmitSpec nextP refs) ras"
        by (simp add: append_each_map_Inr)
      then have "Inl NilPointerDereference \<in> set (map Inr ss)"
        using \<open>Inl NilPointerDereference \<in> set (map (\<lambda>nextP. PresubmitSpec nextP refs) ras)\<close>
        by simp
      then show ?thesis by (simp add: image_iff)
    qed
    then show ?thesis using Inr by simp
  qed
qed

lemma PostsubmitSpec_fields:
  assumes "PostsubmitSpec p refs = Inr pjs"
  shows "Type pjs = PostsubmitJob \<and> Agent pjs = post_Agent p \<and> Job pjs = post_Name p \<and>
    Refs pjs = refs \<and> Report pjs = False \<and> Context pjs = [] \<and>
    RerunCommand pjs = [] \<and> MaxConcurrency pjs = post_MaxConcurrency p \<and>
    PodSpec_for (post_Agent p) (post_Spec p) = Inr (PodSpec pjs) \<and>
    map Inr (RunAfterSuccess pjs) =
      map (\<lambda>nextP. PostsubmitSpec nextP refs) (post_RunAfterSuccess p)"
proof (cases p)
  case (Postsubmit name agent spec maxc ras)
  from assms obtain podspec where ps: "PodSpec_for agent spec = Inr podspec"
    unfolding Postsubmit by (cases "PodSpec_for agent spec") simp_all
  from assms ps obtain followups where
    fs: "append_each (map (\<lambda>nextP. PostsubmitSpec nextP refs) ras) [] = Inr followups"
    unfolding Postsubmit
    by (cases "append_each (map (\<lambda>nextP. PostsubmitSpec nextP refs) ras) []") simp_all
  from assms ps fs have
    "pjs = ProwJobSpec PostsubmitJob agent name refs False [] [] maxc podspec followups"
    unfolding Postsubmit by simp
  then show ?thesis
    using ps fs unfolding Postsubmit by (simp add: append_each_map_Inr)
qed

lemma PostsubmitSpec_wf:
  "wf_Postsubmit p \<Longrightarrow>
   \<exists>pjs. PostsubmitSpec p refs = Inr pjs \<and> follows_Postsubmit refs p pjs"
proof (induction p refs rule: PostsubmitSpec.induct)
  case (1 name agent spec maxc ras refs)
  from "1.prems" have "\<exists>podspec. PodSpec_for agent spec = Inr podspec"
    by (cases spec) (simp_all add: PodSpec_for_def go_deref_def)
  then obtain podspec where ps: "PodSpec_for agent spec = Inr podspec" ..
  have "\<forall>nextP\<in>set ras. \<exists>s. PostsubmitSpec nextP refs = Inr s \<and>
      follows_Postsubmit refs nextP s"
    using "1.IH" [OF ps] "1.prems" by (simp add: list_all_iff)
  from follow_ups_exist [OF this] obtain followups where
    "append_each (map (\<lambda>nextP. PostsubmitSpec nextP refs) ras) [] = Inr followups"
    "list_all2 (follows_Postsubmit refs) ras followups"
    by blast
  then show ?case using ps by simp
qed

lemma PostsubmitSpec_not_wf:
  "\<not> wf_Postsubmit p \<Longrightarrow> PostsubmitSpec p refs = Inl NilPointerDereference"
proof (induction p refs rule: PostsubmitSpec.induct)
  case (1 name agent spec maxc ras refs)
  show ?case
  proof (cases "PodSpec_for agent spec")
    case (Inl e)
    then have "e = NilPointerDereference" by (simp add: PodSpec_for_Inl)
    with Inl show ?thesis by simp
  next
    case (Inr podspec)
    then have "agent = KubernetesAgent \<longrightarrow> spec \<noteq> None"
      by (auto simp: PodSpec_for_Inr)
    with "1.prems" obtain q where q: "q \<in> set ras" "\<not> wf_Postsubmit q"
      by (auto simp: list_all_iff)
    from "1.IH" [OF Inr q] have "Inl NilPointerDereference \<in>
        set (map (\<lambda>nextP. PostsubmitSpec nextP refs) ras)"
      using q(1) by (metis image_eqI set_map)
    have "append_each (map (\<lambda>nextP. PostsubmitSpec nextP refs) ras) [] = Inl NilPointerDereference"
    proof (cases "append_each (map (\<lambda>nextP. PostsubmitSpec nextP refs) ras) []")
      case (Inl e)
      from append_each_Inl [OF this] obtain r where "r \<in> set ras" "PostsubmitSpec r refs = Inl e"
        by auto
      moreover from this have "\<not> wf_Postsubmit r"
        using PostsubmitSpec_wf [of r refs] by auto
      ultimately have "e = NilPointerDereference" using "1.IH" [OF Inr, of r] by simp
      with Inl show ?thesis by simp
    next
      case (Inr ss)
      then have "map Inr ss = map (\<lambda>nextP. PostsubmitSpec nextP refs) ras"
        by (simp add: append_each_map_Inr)
      then have "Inl NilPointerDereference \<in> set (map Inr ss)"
        using \<open>Inl NilPointerDereference \<in> set (map (\<lambda>nextP. PostsubmitSpec nextP refs) ras)\<close>
        by simp
      then show ?thesis by (simp add: image_iff)
    qed
    then show ?thesis using Inr by simp
  qed
qed

lemma PeriodicSpec_fields:
  assumes "PeriodicSpec p = Inr pjs"
  shows "Type pjs = PeriodicJob \<and> Agent pjs = per_Agent p \<and> Job pjs = per_Name p \<and>
    Refs pjs = zero_Refs \<and> Report pjs = False \<and> Context pjs = [] \<and>
    RerunCommand pjs = [] \<and> MaxConcurrency pjs = 0 \<and>
    PodSpec_for (per_Agent p) (per_Spec p) = Inr (PodSpec pjs) \<and>
    map Inr (RunAfterSuccess pjs) =
      map (\<lambda>nextP. PeriodicSpec nextP) (per_RunAfterSuccess p)"
proof (cases p)
  case (Periodic name agent spec ras)
  from assms obtain podspec where ps: "PodSpec_for agent spec = Inr podspec"
    unfolding Periodic by (cases "PodSpec_for agent spec") simp_all
  from assms ps obtain followups where
    fs: "append_each (map (\<lambda>nextP. PeriodicSpec nextP) ras) [] = Inr followups"
    unfolding Periodic
    by (cases "append_each (map (\<lambda>nextP. PeriodicSpec nextP) ras) []") simp_all
  from assms ps fs have
    "pjs = ProwJobSpec PeriodicJob agent name zero_Refs False [] [] 0 podspec followups"
    unfolding Periodic by simp
  then show ?thesis
    using ps fs unfolding Periodic by (simp add: append_each_map_Inr)
qed

lemma PeriodicSpec_wf:
  "wf_Periodic p \<Longrightarrow>
   \<exists>pjs. PeriodicSpec p = Inr pjs \<and> follows_Periodic p pjs"
proof (induction p rule: PeriodicSpec.induct)
  case (1 name agent spec ras)
  from "1.prems" have "\<exists>podspec. PodSpec_for agent spec = Inr podspec"
    by (cases spec) (simp_all add: PodSpec_for_def go_deref_def)
  then obtain podspec where ps: "PodSpec_for agent spec = Inr podspec" ..
  have "\<forall>nextP\<in>set ras. \<exists>s. PeriodicSpec nextP = Inr s \<and>
      follows_Periodic nextP s"
    using "1.IH" [OF ps] "1.prems" by (simp add: list_all_iff)
  from follow_ups_exist [OF this] obtain followups where
    "append_each (map (\<lambda>nextP. PeriodicSpec nextP) ras) [] = Inr followups"
    "list_all2 (follows_Periodic) ras followups"
    by blast
  then show ?case using ps by simp
qed

lemma PeriodicSpec_not_wf:
  "\<not> wf_Periodic p \<Longrightarrow> PeriodicSpec p = Inl NilPointerDereference"
proof (induction p rule: PeriodicSpec.induct)
  case (1 name agent spec ras)
  show ?case
  proof (cases "PodSpec_for agent spec")
    case (Inl e)
    then have "e = NilPointerDereference" by (simp add: PodSpec_for_Inl)
    with Inl show ?thesis by simp
  next
    case (Inr podspec)
    then have "agent = KubernetesAgent \<longrightarrow> spec \<noteq> None"
      by (auto simp: PodSpec_for_Inr)
    with "1.prems" obtain q where q: "q \<in> set ras" "\<not> wf_Periodic q"
      by (auto simp: list_all_iff)
    from "1.IH" [OF Inr q] have "Inl NilPointerDereference \<in>
        set (map (\<lambda>nextP. PeriodicSpec nextP) ras)"
      using q(1) by (metis image_eqI set_map)
    have "append_each (map (\<lambda>nextP. PeriodicSpec nextP) ras) [] = Inl NilPointerDereference"
    proof (cases "append_each (map (\<lambda>nextP. PeriodicSpec nextP) ras) []")
      case (Inl e)
      from append_each_Inl [OF this] obtain r where "r \<in> set ras" "PeriodicSpec r = Inl e"
        by auto
      moreover from this have "\<not> wf_Periodic r"
        using PeriodicSpec_wf [of r] by auto
      ultimately have "e = NilPointerDereference" using "1.IH" [OF Inr, of r] by simp
      with Inl show ?thesis by simp
    next
      case (Inr ss)
      then have "map Inr ss = map (\<lambda>nextP. PeriodicSpec nextP) ras"
        by (simp add: append_each_map_Inr)
      then have "Inl NilPointerDereference \<in> set (map Inr ss)"
        using \<open>Inl NilPointerDereference \<in> set (map (\<lambda>nextP. PeriodicSpec nextP) ras)\<close>
        by simp
      then show ?thesis by (simp add: image_iff)
    qed
    then show ?thesis using Inr by simp
  qed
qed

lemma BatchSpec_fields:
  assumes "BatchSpec p refs = Inr pjs"
  shows "Type pjs = BatchJob \<and> Agent pjs = pre_Agent p \<and> Job pjs = pre_Name p \<and>
    Refs pjs = refs \<and> Report pjs = False \<and> Context pjs = pre_Context p \<and>
    RerunCommand pjs = [] \<and> MaxConcurrency pjs = 0 \<and>
    PodSpec_for (pre_Agent p) (pre_Spec p) = Inr (PodSpec pjs) \<and>
    map Inr (RunAfterSuccess pjs) =
      map (\<lambda>nextP. BatchSpec nextP refs) (pre_RunAfterSuccess p)"
proof (cases p)
  case (Presubmit name agent spec ctx rerun skip maxc ras)
  from assms obtain podspec where ps: "PodSpec_for agent spec = Inr podspec"
    unfolding Presubmit by (cases "PodSpec_for agent spec") simp_all
  from assms ps obtain followups where
    fs: "append_each (map (\<lambda>nextP. BatchSpec nextP refs) ras) [] = Inr followups"
    unfolding Presubmit
    by (cases "append_each (map (\<lambda>nextP. BatchSpec nextP refs) ras) []") simp_all
  from assms ps fs have
    "pjs = ProwJobSpec BatchJob agent name refs False ctx [] 0 podspec followups"
    unfolding Presubmit by simp
  then show ?thesis
    using ps fs unfolding Presubmit by (simp add: append_each_map_Inr)
qed

lemma BatchSpec_wf:
  "wf_Presubmit p \<Longrightarrow>
   \<exists>pjs. BatchSpec p refs = Inr pjs \<and> follows_Presubmit BatchJob refs p pjs"
proof (induction p refs rule: BatchSpec.induct)
  case (1 name agent spec ctx rerun skip maxc ras refs)
  from "1.prems" have "\<exists>podspec. PodSpec_for agent spec = Inr podspec"
    by (cases spec) (simp_all add: PodSpec_for_def go_deref_def)
  then obtain podspec where ps: "PodSpec_for agent spec = Inr podspec" ..
  have "\<forall>nextP\<in>set ras. \<exists>s. BatchSpec nextP refs = Inr s \<and>
      follows_Presubmit BatchJob refs nextP s"
    using "1.IH" [OF ps] "1.prems" by (simp add: list_all_iff)
  from follow_ups_exist [OF this] obtain followups where
    "append_each (map (\<lambda>nextP. BatchSpec nextP refs) ras) [] = Inr followups"
    "list_all2 (follows_Presubmit BatchJob refs) ras followups"
    by blast
  then show ?case using ps by simp
qed

lemma BatchSpec_not_wf:
  "\<not> wf_Presubmit p \<Longrightarrow> BatchSpec p refs = Inl NilPointerDereference"
proof (induction p refs rule: BatchSpec.induct)
  case (1 name agent spec ctx rerun skip maxc ras refs)
  show ?case
  proof (cases "PodSpec_for agent spec")
    case (Inl e)
    then have "e = NilPointerDereference" by (simp add: PodSpec_for_Inl)
    with Inl show ?thesis by simp
  next
    case (Inr podspec)
    then have "agent = KubernetesAgent \<longrightarrow> spec \<noteq> None"
      by (auto simp: PodSpec_for_Inr)
    with "1.prems" obtain q where q: "q \<in> set ras" "\<not> wf_Presubmit q"
      by (auto simp: list_all_iff)
    from "1.IH" [OF Inr q] have "Inl NilPointerDereference \<in>
        set (map (\<lambda>nextP. BatchSpec nextP refs) ras)"
      using q(1) by (metis image_eqI set_map)
    have "append_each (map (\<lambda>nextP. BatchSpec nextP refs) ras) [] = Inl NilPointerDereference"
    proof (cases "append_each (map (\<lambda>nextP. BatchSpec nextP refs) ras) []")
      case (Inl e)
      from append_each_Inl [OF this] obtain r where "r \<in> set ras" "BatchSpec r refs = Inl e"
        by auto
      moreover from this have "\<not> wf_Presubmit r"
        using BatchSpec_wf [of r refs] by auto
      ultimately have "e = NilPointerDereference" using "1.IH" [OF Inr, of r] by simp
      with Inl show ?thesis by simp
    next
      case (Inr ss)
      then have "map Inr ss = map (\<lambda>nextP. BatchSpec nextP refs) ras"
        by (simp add: append_each_map_Inr)
      then have "Inl NilPointerDereference \<in> set (map Inr ss)"
        using \<open>Inl NilPointerDereference \<in> set (map (\<lambda>nextP. BatchSpec nextP refs) ras)\<close>
        by simp
      then show ?thesis by (simp add: image_iff)
    qed
    then show ?thesis using Inr by simp
  qed
qed

lemma PodSpec_for_copied:
  assumes "Agent pjs = agent \<and> PodSpec_for agent spec = Inr (PodSpec pjs)"
  shows "Agent pjs = agent \<and>
    (agent = KubernetesAgent \<longrightarrow> spec = Some (PodSpec pjs)) \<and>
    (agent \<noteq> KubernetesAgent \<longrightarrow> PodSpec pjs = zero_PodSpec)"
  using assms by (simp add: PodSpec_for_Inr split: if_splits)

text \<open>
  Claim C7: for every template of each of the four variants, a spec that the builder
  returns has the template's agent; when that agent is the Kubernetes agent the spec's
  pod spec is the template's, and for every other agent it is the zero pod spec, whatever
  the template's pod spec field holds. The builder returns a spec exactly for the
  well-formed templates; for the others it panics on the nil \<^verbatim>\<open>Spec\<close> pointer.
\<close>

theorem PodSpec_copied_iff_KubernetesAgent:
  "(PresubmitSpec p refs = Inr pjs1 \<longrightarrow>
      Agent pjs1 = pre_Agent p \<and>
      (pre_Agent p = KubernetesAgent \<longrightarrow> pre_Spec p = Some (PodSpec pjs1)) \<and>
      (pre_Agent p \<noteq> KubernetesAgent \<longrightarrow> PodSpec pjs1 = zero_PodSpec)) \<and>
   (PostsubmitSpec q refs = Inr pjs2 \<longrightarrow>
      Agent pjs2 = post_Agent q \<and>
      (post_Agent q = KubernetesAgent \<longrightarrow> post_Spec q = Some (PodSpec pjs2)) \<and>
      (post_Agent q \<noteq> KubernetesAgent \<longrightarrow> PodSpec pjs2 = zero_PodSpec)) \<and>
   (PeriodicSpec r = Inr pjs3 \<longrightarrow>
      Agent pjs3 = per_Agent r \<and>
      (per_Agent r = KubernetesAgent \<longrightarrow> per_Spec r = Some (PodSpec pjs3)) \<and>
      (per_Agent r \<noteq> KubernetesAgent \<longrightarrow> PodSpec pjs3 = zero_PodSpec)) \<and>
   (BatchSpec p refs = Inr pjs4 \<longrightarrow>
      Agent pjs4 = pre_Agent p \<and>
      (pre_Agent p = KubernetesAgent \<longrightarrow> pre_Spec p = Some (PodSpec pjs4)) \<and>
      (pre_Agent p \<noteq> KubernetesAgent \<longrightarrow> PodSpec pjs4 = zero_PodSpec)) \<and>
   ((\<exists>pjs. PresubmitSpec p refs = Inr pjs) \<longleftrightarrow> wf_Presubmit p) \<and>
   ((\<exists>pjs. PostsubmitSpec q refs = Inr pjs) \<longleftrightarrow> wf_Postsubmit q) \<and>
   ((\<exists>pjs. PeriodicSpec r = Inr pjs) \<longleftrightarrow> wf_Periodic r) \<and>
   ((\<exists>pjs. BatchSpec p refs = Inr pjs) \<longleftrightarrow> wf_Presubmit p) \<and>
   (\<not> wf_Presubmit p \<longrightarrow>
      PresubmitSpec p refs = Inl NilPointerDereference \<and>
      BatchSpec p refs = Inl NilPointerDereference) \<and>
   (\<not> wf_Postsubmit q \<longrightarrow> PostsubmitSpec q refs = Inl NilPointerDereference) \<and>
   (\<not> wf_Periodic r \<longrightarrow> PeriodicSpec r = Inl NilPointerDereference)"
proof -
  have 1: "PresubmitSpec p refs = Inr pjs1 \<longrightarrow>
      Agent pjs1 = pre_Agent p \<and>
      (pre_Agent p = KubernetesAgent \<longrightarrow> pre_Spec p = Some (PodSpec pjs1)) \<and>
      (pre_Agent p \<noteq> KubernetesAgent \<longrightarrow> PodSpec pjs1 = zero_PodSpec)"
  proof
    assume b: "PresubmitSpec p refs = Inr pjs1"
    from PresubmitSpec_fields [OF b]
    have "Agent pjs1 = pre_Agent p \<and> PodSpec_for (pre_Agent p) (pre_Spec p) = Inr (PodSpec pjs1)"
      by simp
    then show "Agent pjs1 = pre_Agent p \<and>
      (pre_Agent p = KubernetesAgent \<longrightarrow> pre_Spec p = Some (PodSpec pjs1)) \<and>
      (pre_Agent p \<noteq> KubernetesAgent \<longrightarrow> PodSpec pjs1 = zero_PodSpec)"
      by (rule PodSpec_for_copied)
  qed
  have 2: "PostsubmitSpec q refs = Inr pjs2 \<longrightarrow>
      Agent pjs2 = post_Agent q \<and>
      (post_Agent q = KubernetesAgent \<longrightarrow> post_Spec q = Some (PodSpec pjs2)) \<and>
      (post_Agent q \<noteq> KubernetesAgent \<longrightarrow> PodSpec pjs2 = zero_PodSpec)"
  proof
    assume b: "PostsubmitSpec q refs = Inr pjs2"
    from PostsubmitSpec_fields [OF b]
    have "Agent pjs2 = post_Agent q \<and> PodSpec_for (post_Agent q) (post_Spec q) = Inr (PodSpec pjs2)"
      by simp
    then show "Agent pjs2 = post_Agent q \<and>
      (post_Agent q = KubernetesAgent \<longrightarrow> post_Spec q = Some (PodSpec pjs2)) \<and>
      (post_Agent q \<noteq> KubernetesAgent \<longrightarrow> PodSpec pjs2 = zero_PodSpec)"
      by (rule PodSpec_for_copied)
  qed
  have 3: "PeriodicSpec r = Inr pjs3 \<longrightarrow>
      Agent pjs3 = per_Agent r \<and>
      (per_Agent r = KubernetesAgent \<longrightarrow> per_Spec r = Some (PodSpec pjs3)) \<and>
      (per_Agent r \<noteq> KubernetesAgent \<longrightarrow> PodSpec pjs3 = zero_PodSpec)"
  proof
    assume b: "PeriodicSpec r = Inr pjs3"
    from PeriodicSpec_fields [OF b]
    have "Agent pjs3 = per_Agent r \<and> PodSpec_for (per_Agent r) (per_Spec r) = Inr (PodSpec pjs3)"
      by simp
    then show "Agent pjs3 = per_Agent r \<and>
      (per_Agent r = KubernetesAgent \<longrightarrow> per_Spec r = Some (PodSpec pjs3)) \<and>
      (per_Agent r \<noteq> KubernetesAgent \<longrightarrow> PodSpec pjs3 = zero_PodSpec)"
      by (rule PodSpec_for_copied)
  qed
  have 4: "BatchSpec p refs = Inr pjs4 \<longrightarrow>
      Agent pjs4 = pre_Agent p \<and>
      (pre_Agent p = KubernetesAgent \<longrightarrow> pre_Spec p = Some (PodSpec pjs4)) \<and>
      (pre_Agent p \<noteq> KubernetesAgent \<longrightarrow> PodSpec pjs4 = zero_PodSpec)"
  proof
    assume b: "BatchSpec p refs = Inr pjs4"
    from BatchSpec_fields [OF b]
    have "Agent pjs4 = pre_Agent p \<and> PodSpec_for (pre_Agent p) (pre_Spec p) = Inr (PodSpec pjs4)"
      by simp
    then show "Agent pjs4 = pre_Agent p \<and>
      (pre_Agent p = KubernetesAgent \<longrightarrow> pre_Spec p = Some (PodSpec pjs4)) \<and>
      (pre_Agent p \<noteq> KubernetesAgent \<longrightarrow> PodSpec pjs4 = zero_PodSpec)"
      by (rule PodSpec_for_copied)
  qed
  have 5: "(\<exists>pjs. PresubmitSpec p refs = Inr pjs) \<longleftrightarrow> wf_Presubmit p"
  proof (cases "wf_Presubmit p")
    case True
    with PresubmitSpec_wf [OF True, of refs] show ?thesis by blast
  next
    case False
    with PresubmitSpec_not_wf [OF False, of refs] show ?thesis by simp
  qed
  have 6: "(\<exists>pjs. PostsubmitSpec q refs = Inr pjs) \<longleftrightarrow> wf_Postsubmit q"
  proof (cases "wf_Postsubmit q")
    case True
    with PostsubmitSpec_wf [OF True, of refs] show ?thesis by blast
  next
    case False
    with PostsubmitSpec_not_wf [OF False, of refs] show ?thesis by simp
  qed
  have 7: "(\<exists>pjs. PeriodicSpec r = Inr pjs) \<longleftrightarrow> wf_Periodic r"
  proof (cases "wf_Periodic r")
    case True
    with PeriodicSpec_wf [OF True] show ?thesis by blast
  next
    case False
    with PeriodicSpec_not_wf [OF False] show ?thesis by simp
  qed
  have 8: "(\<exists>pjs. BatchSpec p refs = Inr pjs) \<longleftrightarrow> wf_Presubmit p"
  proof (cases "wf_Presubmit p")
    case True
    with BatchSpec_wf [OF True, of refs] show ?thesis by blast
  next
    case False
    with BatchSpec_not_wf [OF False, of refs] show ?thesis by simp
  qed
  show ?thesis
    using 1 2 3 4 5 6 7 8 PresubmitSpec_not_wf [of p refs] BatchSpec_not_wf [of p refs]
      PostsubmitSpec_not_wf [of q refs] PeriodicSpec_not_wf [of r]
    by (intro conjI impI) simp_all
qed

theorem PodSpec_copied_iff_KubernetesAgent_witness:
  "(\<exists>pjs. PresubmitSpec example_Presubmit example_Refs = Inr pjs \<and>
      PodSpec pjs = example_PodSpec) \<and>
   (\<exists>pjs. PostsubmitSpec example_Postsubmit example_Refs = Inr pjs \<and>
      PodSpec pjs = zero_PodSpec) \<and>
   (\<exists>pjs. PeriodicSpec example_Periodic = Inr pjs \<and> PodSpec pjs = example_PodSpec) \<and>
   (\<exists>pjs. BatchSpec example_Presubmit example_Refs = Inr pjs \<and>
      PodSpec pjs = example_PodSpec) \<and>
   PresubmitSpec (Presubmit ''unit'' KubernetesAgent None [] [] False 0 []) example_Refs =
     (Inl NilPointerDereference :: go_panic + (EnvVar list, unit) ProwJobSpec)"
proof -
  have w: "wf_Presubmit example_Presubmit" "wf_Postsubmit example_Postsubmit"
    "wf_Periodic example_Periodic"
    "\<not> wf_Presubmit (Presubmit ''unit'' KubernetesAgent None [] [] False 0 [])"
    by (simp_all add: example_templates)
  have a: "pre_Agent example_Presubmit = KubernetesAgent"
    "pre_Spec example_Presubmit = Some example_PodSpec"
    "post_Agent example_Postsubmit \<noteq> KubernetesAgent"
    "per_Agent example_Periodic = KubernetesAgent"
    "per_Spec example_Periodic = Some example_PodSpec"
    by (simp_all add: example_templates)
  note c = PodSpec_copied_iff_KubernetesAgent
    [of example_Presubmit example_Refs _ example_Postsubmit _ example_Periodic]
  note rest = c [THEN conjunct2, THEN conjunct2, THEN conjunct2, THEN conjunct2]
  note t1 = rest [THEN conjunct1]
    and t2 = rest [THEN conjunct2, THEN conjunct1]
    and t3 = rest [THEN conjunct2, THEN conjunct2, THEN conjunct1]
    and t4 = rest [THEN conjunct2, THEN conjunct2, THEN conjunct2, THEN conjunct1]
  from t1 w(1) obtain pjs1 where b1: "PresubmitSpec example_Presubmit example_Refs = Inr pjs1"
    by blast
  from t2 w(2) obtain pjs2 where b2: "PostsubmitSpec example_Postsubmit example_Refs = Inr pjs2"
    by blast
  from t3 w(3) obtain pjs3 where b3: "PeriodicSpec example_Periodic = Inr pjs3"
    by blast
  from t4 w(1) obtain pjs4 where b4: "BatchSpec example_Presubmit example_Refs = Inr pjs4"
    by blast
  have p1: "PodSpec pjs1 = example_PodSpec"
    using c [THEN conjunct1, rule_format, OF b1] a(1,2) by simp
  have p2: "PodSpec pjs2 = zero_PodSpec"
    using c [THEN conjunct2, THEN conjunct1, rule_format, OF b2] a(3) by simp
  have p3: "PodSpec pjs3 = example_PodSpec"
    using c [THEN conjunct2, THEN conjunct2, THEN conjunct1, rule_format, OF b3] a(4,5) by simp
  have p4: "PodSpec pjs4 = example_PodSpec"
    using c [THEN conjunct2, THEN conjunct2, THEN conjunct2, THEN conjunct1, rule_format, OF b4]
      a(1,2) by simp
  have n: "PresubmitSpec (Presubmit ''unit'' KubernetesAgent None [] [] False 0 [])
      example_Refs = (Inl NilPointerDereference :: go_panic + (EnvVar list, unit) ProwJobSpec)"
    by (rule PodSpec_copied_iff_KubernetesAgent
      [of "Presubmit ''unit'' KubernetesAgent None [] [] False 0 []" example_Refs,
       THEN conjunct2, THEN conjunct2, THEN conjunct2, THEN conjunct2,
       THEN conjunct2, THEN conjunct2, THEN conjunct2, THEN conjunct2, THEN conjunct1,
       rule_format, OF w(4), THEN conjunct1])
  have g1: "\<exists>pjs. PresubmitSpec example_Presubmit example_Refs = Inr pjs \<and>
      PodSpec pjs = example_PodSpec"
    using b1 p1 by blast
  have g2: "\<exists>pjs. PostsubmitSpec example_Postsubmit example_Refs = Inr pjs \<and>
      PodSpec pjs = zero_PodSpec"
    using b2 p2 by blast
  have g3: "\<exists>pjs. PeriodicSpec example_Periodic = Inr pjs \<and> PodSpec pjs = example_PodSpec"
    using b3 p3 by blast
  have g4: "\<exists>pjs. BatchSpec example_Presubmit example_Refs = Inr pjs \<and>
      PodSpec pjs = example_PodSpec"
    using b4 p4 by blast
  show ?thesis by (intro conjI g1 g2 g3 g4 n)
qed

text \<open>
  Claim C3: for a well-formed template of each of the four variants and any refs the
  builder returns a spec whose follow-up specs are as many as the template's follow-up
  templates and are, in order, the results of the same builder on them with the same
  refs (none for Periodic); the spec follows the template at every depth: each
  descendant has the variant's job type and the same refs, a Periodic one the zero refs.
\<close>

theorem RunAfterSuccess_follows_template:
  "(wf_Presubmit p \<longrightarrow>
      (\<exists>pjs. PresubmitSpec p refs = Inr pjs \<and>
         length (RunAfterSuccess pjs) = length (pre_RunAfterSuccess p) \<and>
         map Inr (RunAfterSuccess pjs) =
           map (\<lambda>nextP. PresubmitSpec nextP refs) (pre_RunAfterSuccess p) \<and>
         follows_Presubmit PresubmitJob refs p pjs)) \<and>
   (wf_Postsubmit q \<longrightarrow>
      (\<exists>pjs. PostsubmitSpec q refs = Inr pjs \<and>
         length (RunAfterSuccess pjs) = length (post_RunAfterSuccess q) \<and>
         map Inr (RunAfterSuccess pjs) =
           map (\<lambda>nextP. PostsubmitSpec nextP refs) (post_RunAfterSuccess q) \<and>
         follows_Postsubmit refs q pjs)) \<and>
   (wf_Periodic r \<longrightarrow>
      (\<exists>pjs. PeriodicSpec r = Inr pjs \<and>
         length (RunAfterSuccess pjs) = length (per_RunAfterSuccess r) \<and>
         map Inr (RunAfterSuccess pjs) = map (\<lambda>nextP. PeriodicSpec nextP) (per_RunAfterSuccess r) \<and>
         follows_Periodic r pjs)) \<and>
   (wf_Presubmit p \<longrightarrow>
      (\<exists>pjs. BatchSpec p refs = Inr pjs \<and>
         length (RunAfterSuccess pjs) = length (pre_RunAfterSuccess p) \<and>
         map Inr (RunAfterSuccess pjs) =
           map (\<lambda>nextP. BatchSpec nextP refs) (pre_RunAfterSuccess p) \<and>
         follows_Presubmit BatchJob refs p pjs))"
proof (intro conjI impI)
  assume "wf_Presubmit p"
  from PresubmitSpec_wf [OF this, of refs] obtain pjs where
    b: "PresubmitSpec p refs = Inr pjs" and f: "follows_Presubmit PresubmitJob refs p pjs"
    by blast
  from PresubmitSpec_fields [OF b] have m: "map Inr (RunAfterSuccess pjs) =
      map (\<lambda>nextP. PresubmitSpec nextP refs) (pre_RunAfterSuccess p)"
    by simp
  from m have "length (RunAfterSuccess pjs) = length (pre_RunAfterSuccess p)"
    by (rule map_eq_imp_length_eq)
  with b f m show "\<exists>pjs. PresubmitSpec p refs = Inr pjs \<and>
         length (RunAfterSuccess pjs) = length (pre_RunAfterSuccess p) \<and>
         map Inr (RunAfterSuccess pjs) =
           map (\<lambda>nextP. PresubmitSpec nextP refs) (pre_RunAfterSuccess p) \<and>
         follows_Presubmit PresubmitJob refs p pjs"
    by blast
next
  assume "wf_Postsubmit q"
  from PostsubmitSpec_wf [OF this, of refs] obtain pjs where
    b: "PostsubmitSpec q refs = Inr pjs" and f: "follows_Postsubmit refs q pjs"
    by blast
  from PostsubmitSpec_fields [OF b] have m: "map Inr (RunAfterSuccess pjs) =
      map (\<lambda>nextP. PostsubmitSpec nextP refs) (post_RunAfterSuccess q)"
    by simp
  from m have "length (RunAfterSuccess pjs) = length (post_RunAfterSuccess q)"
    by (rule map_eq_imp_length_eq)
  with b f m show "\<exists>pjs. PostsubmitSpec q refs = Inr pjs \<and>
         length (RunAfterSuccess pjs) = length (post_RunAfterSuccess q) \<and>
         map Inr (RunAfterSuccess pjs) =
           map (\<lambda>nextP. PostsubmitSpec nextP refs) (post_RunAfterSuccess q) \<and>
         follows_Postsubmit refs q pjs"
    by blast
next
  assume "wf_Periodic r"
  from PeriodicSpec_wf [OF this] obtain pjs where
    b: "PeriodicSpec r = Inr pjs" and f: "follows_Periodic r pjs"
    by blast
  from PeriodicSpec_fields [OF b] have m: "map Inr (RunAfterSuccess pjs) =
      map (\<lambda>nextP. PeriodicSpec nextP) (per_RunAfterSuccess r)"
    by simp
  from m have "length (RunAfterSuccess pjs) = length (per_RunAfterSuccess r)"
    by (rule map_eq_imp_length_eq)
  with b f m show "\<exists>pjs. PeriodicSpec r = Inr pjs \<and>
         length (RunAfterSuccess pjs) = length (per_RunAfterSuccess r) \<and>
         map Inr (RunAfterSuccess pjs) = map (\<lambda>nextP. PeriodicSpec nextP) (per_RunAfterSuccess r) \<and>
         follows_Periodic r pjs"
    by blast
next
  assume "wf_Presubmit p"
  from BatchSpec_wf [OF this, of refs] obtain pjs where
    b: "BatchSpec p refs = Inr pjs" and f: "follows_Presubmit BatchJob refs p pjs"
    by blast
  from BatchSpec_fields [OF b] have m: "map Inr (RunAfterSuccess pjs) =
      map (\<lambda>nextP. BatchSpec nextP refs) (pre_RunAfterSuccess p)"
    by simp
  from m have "length (RunAfterSuccess pjs) = length (pre_RunAfterSuccess p)"
    by (rule map_eq_imp_length_eq)
  with b f m show "\<exists>pjs. BatchSpec p refs = Inr pjs \<and>
         length (RunAfterSuccess pjs) = length (pre_RunAfterSuccess p) \<and>
         map Inr (RunAfterSuccess pjs) =
           map (\<lambda>nextP. BatchSpec nextP refs) (pre_RunAfterSuccess p) \<and>
         follows_Presubmit BatchJob refs p pjs"
    by blast
qed

theorem RunAfterSuccess_follows_template_witness:
  "wf_Presubmit example_Presubmit \<and> wf_Postsubmit example_Postsubmit \<and>
   wf_Periodic example_Periodic \<and>
   (\<exists>pjs. PresubmitSpec example_Presubmit example_Refs = Inr pjs \<and>
      length (RunAfterSuccess pjs) = 2 \<and>
      follows_Presubmit PresubmitJob example_Refs example_Presubmit pjs) \<and>
   (\<exists>pjs. PostsubmitSpec example_Postsubmit example_Refs = Inr pjs \<and>
      length (RunAfterSuccess pjs) = 1 \<and>
      follows_Postsubmit example_Refs example_Postsubmit pjs) \<and>
   (\<exists>pjs. PeriodicSpec example_Periodic = Inr pjs \<and>
      length (RunAfterSuccess pjs) = 1 \<and> follows_Periodic example_Periodic pjs) \<and>
   (\<exists>pjs. BatchSpec example_Presubmit example_Refs = Inr pjs \<and>
      length (RunAfterSuccess pjs) = 2 \<and>
      follows_Presubmit BatchJob example_Refs example_Presubmit pjs)"
proof -
  have w: "wf_Presubmit example_Presubmit" "wf_Postsubmit example_Postsubmit"
    "wf_Periodic example_Periodic"
    by (simp_all add: example_templates)
  have l: "length (pre_RunAfterSuccess example_Presubmit) = 2"
    "length (post_RunAfterSuccess example_Postsubmit) = 1"
    "length (per_RunAfterSuccess example_Periodic) = 1"
    by (simp_all add: example_templates)
  note c = RunAfterSuccess_follows_template [of example_Presubmit example_Refs example_Postsubmit example_Periodic]
  from c w l have
    "\<exists>pjs. PresubmitSpec example_Presubmit example_Refs = Inr pjs \<and>
      length (RunAfterSuccess pjs) = 2 \<and>
      follows_Presubmit PresubmitJob example_Refs example_Presubmit pjs"
    by auto
  moreover from c w l have
    "\<exists>pjs. PostsubmitSpec example_Postsubmit example_Refs = Inr pjs \<and>
      length (RunAfterSuccess pjs) = 1 \<and>
      follows_Postsubmit example_Refs example_Postsubmit pjs"
    by auto
  moreover from c w l have
    "\<exists>pjs. PeriodicSpec example_Periodic = Inr pjs \<and>
      length (RunAfterSuccess pjs) = 1 \<and> follows_Periodic example_Periodic pjs"
    by auto
  moreover from c w l have
    "\<exists>pjs. BatchSpec example_Presubmit example_Refs = Inr pjs \<and>
      length (RunAfterSuccess pjs) = 2 \<and>
      follows_Presubmit BatchJob example_Refs example_Presubmit pjs"
    by auto
  ultimately show ?thesis using w by blast
qed

lemma PresubmitSpec_example:
  "PresubmitSpec example_Presubmit example_Refs =
     Inr (ProwJobSpec PresubmitJob ''kubernetes'' ''unit'' example_Refs True ''ci/unit''
            ''/test unit'' 2 example_PodSpec
            [ProwJobSpec PresubmitJob ''jenkins'' ''e2e'' example_Refs False ''ci/e2e''
               ''/test e2e'' 0 zero_PodSpec
               [ProwJobSpec PresubmitJob ''jenkins'' ''soak'' example_Refs True [] [] 0
                  zero_PodSpec []],
             ProwJobSpec PresubmitJob ''kubernetes'' ''lint'' example_Refs True [] [] 0
               example_PodSpec []])"
  by (simp add: example_templates)

section \<open>Properties of EnvForSpec\<close>

lemma Itoa_42: "Itoa 42 = ''42''"
  by (simp add: Itoa_def decimal.simps)

lemma EnvForSpec_Periodic:
  "Type spec = PeriodicJob \<Longrightarrow> EnvForSpec rs spec = Inr [''JOB_NAME'' \<mapsto> Job spec]"
  by (simp add: EnvForSpec_def)

lemma EnvForSpec_Postsubmit_Batch:
  "Type spec = PostsubmitJob \<or> Type spec = BatchJob \<Longrightarrow>
   EnvForSpec rs spec =
     Inr [''JOB_NAME'' \<mapsto> Job spec, ''REPO_OWNER'' \<mapsto> Org (Refs spec),
          ''REPO_NAME'' \<mapsto> Repo (Refs spec), ''PULL_BASE_REF'' \<mapsto> BaseRef (Refs spec),
          ''PULL_BASE_SHA'' \<mapsto> BaseSHA (Refs spec), ''PULL_REFS'' \<mapsto> rs (Refs spec)]"
  by (auto simp add: EnvForSpec_def)

lemma EnvForSpec_Presubmit:
  "Type spec = PresubmitJob \<Longrightarrow> Pulls (Refs spec) = pull # pulls \<Longrightarrow>
   EnvForSpec rs spec =
     Inr [''JOB_NAME'' \<mapsto> Job spec, ''REPO_OWNER'' \<mapsto> Org (Refs spec),
          ''REPO_NAME'' \<mapsto> Repo (Refs spec), ''PULL_BASE_REF'' \<mapsto> BaseRef (Refs spec),
          ''PULL_BASE_SHA'' \<mapsto> BaseSHA (Refs spec), ''PULL_REFS'' \<mapsto> rs (Refs spec),
          ''PULL_NUMBER'' \<mapsto> Itoa (Number pull), ''PULL_PULL_SHA'' \<mapsto> SHA pull]"
  by (simp add: EnvForSpec_def go_index_def)

lemma EnvForSpec_Presubmit_no_pull:
  "Type spec = PresubmitJob \<Longrightarrow> Pulls (Refs spec) = [] \<Longrightarrow>
   EnvForSpec rs spec = Inl IndexOutOfRange"
  by (simp add: EnvForSpec_def go_index_def)

text \<open>
  Claim C2: the keys of the environment by job type, each value drawn from the field of
  the spec or of its refs. A Periodic spec gives exactly \<open>JOB_NAME\<close>; a Postsubmit or
  Batch spec gives exactly the six keys \<open>JOB_NAME\<close>, \<open>REPO_OWNER\<close>, \<open>REPO_NAME\<close>,
  \<open>PULL_BASE_REF\<close>, \<open>PULL_BASE_SHA\<close>, \<open>PULL_REFS\<close>; a Presubmit spec whose first pull
  descriptor is \<open>pull\<close> gives those six and \<open>PULL_NUMBER\<close>, the decimal string of the
  number of \<open>pull\<close>, and \<open>PULL_PULL_SHA\<close>, its SHA.
\<close>

theorem EnvForSpec_keys_by_type:
  "(Type spec = PeriodicJob \<longrightarrow>
      (\<exists>env. EnvForSpec rs spec = Inr env \<and> dom env = {''JOB_NAME''} \<and>
         env ''JOB_NAME'' = Some (Job spec))) \<and>
   (Type spec = PostsubmitJob \<or> Type spec = BatchJob \<longrightarrow>
      (\<exists>env. EnvForSpec rs spec = Inr env \<and>
         dom env = {''JOB_NAME'', ''REPO_OWNER'', ''REPO_NAME'', ''PULL_BASE_REF'',
                    ''PULL_BASE_SHA'', ''PULL_REFS''} \<and>
         env ''JOB_NAME'' = Some (Job spec) \<and>
         env ''REPO_OWNER'' = Some (Org (Refs spec)) \<and>
         env ''REPO_NAME'' = Some (Repo (Refs spec)) \<and>
         env ''PULL_BASE_REF'' = Some (BaseRef (Refs spec)) \<and>
         env ''PULL_BASE_SHA'' = Some (BaseSHA (Refs spec)) \<and>
         env ''PULL_REFS'' = Some (rs (Refs spec)))) \<and>
   (Type spec = PresubmitJob \<and> Pulls (Refs spec) = pull # pulls \<longrightarrow>
      (\<exists>env. EnvForSpec rs spec = Inr env \<and>
         dom env = {''JOB_NAME'', ''REPO_OWNER'', ''REPO_NAME'', ''PULL_BASE_REF'',
                    ''PULL_BASE_SHA'', ''PULL_REFS'', ''PULL_NUMBER'', ''PULL_PULL_SHA''} \<and>
         env ''JOB_NAME'' = Some (Job spec) \<and>
         env ''REPO_OWNER'' = Some (Org (Refs spec)) \<and>
         env ''REPO_NAME'' = Some (Repo (Refs spec)) \<and>
         env ''PULL_BASE_REF'' = Some (BaseRef (Refs spec)) \<and>
         env ''PULL_BASE_SHA'' = Some (BaseSHA (Refs spec)) \<and>
         env ''PULL_REFS'' = Some (rs (Refs spec)) \<and>
         env ''PULL_NUMBER'' = Some (Itoa (Number pull)) \<and>
         env ''PULL_PULL_SHA'' = Some (SHA pull)))"
proof (intro conjI impI)
  assume "Type spec = PeriodicJob"
  from EnvForSpec_Periodic [OF this, of rs]
  show "\<exists>env. EnvForSpec rs spec = Inr env \<and> dom env = {''JOB_NAME''} \<and>
         env ''JOB_NAME'' = Some (Job spec)"
    by simp
next
  assume "Type spec = PostsubmitJob \<or> Type spec = BatchJob"
  from EnvForSpec_Postsubmit_Batch [OF this, of rs]
  show "\<exists>env. EnvForSpec rs spec = Inr env \<and>
         dom env = {''JOB_NAME'', ''REPO_OWNER'', ''REPO_NAME'', ''PULL_BASE_REF'',
                    ''PULL_BASE_SHA'', ''PULL_REFS''} \<and>
         env ''JOB_NAME'' = Some (Job spec) \<and>
         env ''REPO_OWNER'' = Some (Org (Refs spec)) \<and>
         env ''REPO_NAME'' = Some (Repo (Refs spec)) \<and>
         env ''PULL_BASE_REF'' = Some (BaseRef (Refs spec)) \<and>
         env ''PULL_BASE_SHA'' = Some (BaseSHA (Refs spec)) \<and>
         env ''PULL_REFS'' = Some (rs (Refs spec))"
    by (simp add: insert_commute)
next
  assume "Type spec = PresubmitJob \<and> Pulls (Refs spec) = pull # pulls"
  then have "Type spec = PresubmitJob" "Pulls (Refs spec) = pull # pulls" by simp_all
  from EnvForSpec_Presubmit [OF this, of rs]
  show "\<exists>env. EnvForSpec rs spec = Inr env \<and>
         dom env = {''JOB_NAME'', ''REPO_OWNER'', ''REPO_NAME'', ''PULL_BASE_REF'',
                    ''PULL_BASE_SHA'', ''PULL_REFS'', ''PULL_NUMBER'', ''PULL_PULL_SHA''} \<and>
         env ''JOB_NAME'' = Some (Job spec) \<and>
         env ''REPO_OWNER'' = Some (Org (Refs spec)) \<and>
         env ''REPO_NAME'' = Some (Repo (Refs spec)) \<and>
         env ''PULL_BASE_REF'' = Some (BaseRef (Refs spec)) \<and>
         env ''PULL_BASE_SHA'' = Some (BaseSHA (Refs spec)) \<and>
         env ''PULL_REFS'' = Some (rs (Refs spec)) \<and>
         env ''PULL_NUMBER'' = Some (Itoa (Number pull)) \<and>
         env ''PULL_PULL_SHA'' = Some (SHA pull)"
    by (simp add: insert_commute)
qed

theorem EnvForSpec_keys_by_type_witness:
  "(\<exists>env. EnvForSpec example_RefsString (example_spec PeriodicJob zero_Refs) = Inr env \<and>
      dom env = {''JOB_NAME''} \<and> env ''JOB_NAME'' = Some ''unit-test'') \<and>
   (\<exists>env. EnvForSpec example_RefsString (example_spec BatchJob example_Refs) = Inr env \<and>
      dom env = {''JOB_NAME'', ''REPO_OWNER'', ''REPO_NAME'', ''PULL_BASE_REF'',
                 ''PULL_BASE_SHA'', ''PULL_REFS''} \<and>
      env ''REPO_OWNER'' = Some ''kubernetes'' \<and> env ''PULL_BASE_SHA'' = Some ''abc123'') \<and>
   (\<exists>env. EnvForSpec example_RefsString (example_spec PresubmitJob example_Refs) = Inr env \<and>
      dom env = {''JOB_NAME'', ''REPO_OWNER'', ''REPO_NAME'', ''PULL_BASE_REF'',
                 ''PULL_BASE_SHA'', ''PULL_REFS'', ''PULL_NUMBER'', ''PULL_PULL_SHA''} \<and>
      env ''PULL_NUMBER'' = Some ''42'' \<and> env ''PULL_PULL_SHA'' = Some ''def456'')"
proof -
  have t: "Type (example_spec ty refs) = ty" "Job (example_spec ty refs) = ''unit-test''"
    "Refs (example_spec ty refs) = refs" for ty refs
    by (simp_all add: example_spec_def)
  have r: "Org example_Refs = ''kubernetes''" "BaseSHA example_Refs = ''abc123''"
    "Pulls example_Refs = \<lparr>Number = 42, SHA = ''def456''\<rparr> # []"
    by (simp_all add: example_Refs_def)
  have n: "Number \<lparr>Number = 42, SHA = ''def456''\<rparr> = 42" "SHA \<lparr>Number = 42, SHA = ''def456''\<rparr> = ''def456''"
    by simp_all
  note a = EnvForSpec_keys_by_type [of "example_spec PeriodicJob zero_Refs" example_RefsString,
      THEN conjunct1, rule_format, unfolded t, OF refl]
  note b = EnvForSpec_keys_by_type [of "example_spec BatchJob example_Refs" example_RefsString,
      THEN conjunct2, THEN conjunct1, rule_format, unfolded t r, OF disjI2, OF refl]
  note c = EnvForSpec_keys_by_type [of "example_spec PresubmitJob example_Refs" example_RefsString
      "\<lparr>Number = 42, SHA = ''def456''\<rparr>" "[]",
      THEN conjunct2, THEN conjunct2, rule_format, unfolded t r n Itoa_42, OF conjI, OF refl refl]
  from a obtain e1 where e1: "EnvForSpec example_RefsString (example_spec PeriodicJob zero_Refs) = Inr e1"
    "dom e1 = {''JOB_NAME''}" "e1 ''JOB_NAME'' = Some ''unit-test''" by blast
  from b obtain e2 where e2: "EnvForSpec example_RefsString (example_spec BatchJob example_Refs) = Inr e2"
    "dom e2 = {''JOB_NAME'', ''REPO_OWNER'', ''REPO_NAME'', ''PULL_BASE_REF'',
                 ''PULL_BASE_SHA'', ''PULL_REFS''}"
    "e2 ''REPO_OWNER'' = Some ''kubernetes''" "e2 ''PULL_BASE_SHA'' = Some ''abc123''" by blast
  from c obtain e3 where e3: "EnvForSpec example_RefsString (example_spec PresubmitJob example_Refs) = Inr e3"
    "dom e3 = {''JOB_NAME'', ''REPO_OWNER'', ''REPO_NAME'', ''PULL_BASE_REF'',
                 ''PULL_BASE_SHA'', ''PULL_REFS'', ''PULL_NUMBER'', ''PULL_PULL_SHA''}"
    "e3 ''PULL_NUMBER'' = Some ''42''" "e3 ''PULL_PULL_SHA'' = Some ''def456''" by blast
  show ?thesis
    by (intro conjI exI [of _ e1] exI [of _ e2] exI [of _ e3] e1 e2 e3)
qed

lemma EnvForSpec_reads_pull:
  assumes "Type spec \<noteq> PeriodicJob" "Type spec \<noteq> PostsubmitJob" "Type spec \<noteq> BatchJob"
  shows "EnvForSpec rs spec =
     (case go_index (Pulls (Refs spec)) 0 of
        Inl e \<Rightarrow> Inl e
      | Inr pull0 \<Rightarrow>
          Inr [''JOB_NAME'' \<mapsto> Job spec, ''REPO_OWNER'' \<mapsto> Org (Refs spec),
               ''REPO_NAME'' \<mapsto> Repo (Refs spec), ''PULL_BASE_REF'' \<mapsto> BaseRef (Refs spec),
               ''PULL_BASE_SHA'' \<mapsto> BaseSHA (Refs spec), ''PULL_REFS'' \<mapsto> rs (Refs spec),
               ''PULL_NUMBER'' \<mapsto> Itoa (Number pull0), ''PULL_PULL_SHA'' \<mapsto> SHA pull0])"
  using assms by (simp add: EnvForSpec_def split: sum.splits)

text \<open>
  Claim C6, as stated: when every Presubmit spec has a pull descriptor, \<open>EnvForSpec\<close>
  returns for every spec. It fails at the zero value \<^verbatim>\<open>kube.ProwJobSpec{}\<close>: its job
  type is the empty string, which is not the Presubmit type, so the precondition holds;
  the type is none of Periodic, Postsubmit and Batch either, so \<open>EnvForSpec\<close> reads the
  first pull descriptor of an empty list and panics.
\<close>

theorem EnvForSpec_zero_spec_counterexample:
  "Type zero_ProwJobSpec \<noteq> PresubmitJob \<and>
   Pulls (Refs zero_ProwJobSpec) = [] \<and>
   EnvForSpec example_RefsString zero_ProwJobSpec = Inl IndexOutOfRange"
  by (simp add: zero_ProwJobSpec_def zero_Refs_def PresubmitJob_def EnvForSpec_def
      PeriodicJob_def PostsubmitJob_def BatchJob_def go_index_def)

text \<open>
  Claim C6, amended: \<open>EnvForSpec\<close> reads the first pull descriptor for every spec whose
  type is none of Periodic, Postsubmit and Batch; a Presubmit spec is one of them. When
  every such spec has a non-empty list of pull descriptors, \<open>EnvForSpec\<close> returns an
  environment for every spec, and its read of the first pull descriptor is in range. For
  such a spec with no pull descriptor, a Presubmit spec in particular, the read is out of
  range and \<open>EnvForSpec\<close> panics with it.
\<close>

theorem EnvForSpec_total_unless_pull_missing:
  "((Type spec \<noteq> PeriodicJob \<and> Type spec \<noteq> PostsubmitJob \<and> Type spec \<noteq> BatchJob \<longrightarrow>
       Pulls (Refs spec) \<noteq> []) \<longrightarrow>
      (\<exists>env. EnvForSpec rs spec = Inr env) \<and>
      (Type spec \<noteq> PeriodicJob \<and> Type spec \<noteq> PostsubmitJob \<and> Type spec \<noteq> BatchJob \<longrightarrow>
         go_index (Pulls (Refs spec)) 0 = Inr (Pulls (Refs spec) ! 0))) \<and>
   (Type spec \<noteq> PeriodicJob \<and> Type spec \<noteq> PostsubmitJob \<and> Type spec \<noteq> BatchJob \<and>
    Pulls (Refs spec) = [] \<longrightarrow>
      go_index (Pulls (Refs spec)) 0 = Inl IndexOutOfRange \<and>
      EnvForSpec rs spec = Inl IndexOutOfRange) \<and>
   (Type spec = PresubmitJob \<and> Pulls (Refs spec) = [] \<longrightarrow>
      go_index (Pulls (Refs spec)) 0 = Inl IndexOutOfRange \<and>
      EnvForSpec rs spec = Inl IndexOutOfRange)"
proof -
  let ?reads = "Type spec \<noteq> PeriodicJob \<and> Type spec \<noteq> PostsubmitJob \<and> Type spec \<noteq> BatchJob"
  have total: "\<exists>env. EnvForSpec rs spec = Inr env" if pre: "?reads \<longrightarrow> Pulls (Refs spec) \<noteq> []"
  proof (cases "Type spec = PeriodicJob")
    case True
    then show ?thesis using EnvForSpec_Periodic [of spec rs] by blast
  next
    case np: False
    show ?thesis
    proof (cases "Type spec = PostsubmitJob \<or> Type spec = BatchJob")
      case True
      then show ?thesis using EnvForSpec_Postsubmit_Batch [of spec rs] by blast
    next
      case False
      with np have r: "Type spec \<noteq> PeriodicJob" "Type spec \<noteq> PostsubmitJob"
        "Type spec \<noteq> BatchJob" by simp_all
      with pre have "Pulls (Refs spec) \<noteq> []" by simp
      then have "go_index (Pulls (Refs spec)) 0 = Inr (Pulls (Refs spec) ! 0)"
        by (simp add: go_index_def)
      then show ?thesis unfolding EnvForSpec_reads_pull [OF r] by simp
    qed
  qed
  have in_range: "go_index (Pulls (Refs spec)) 0 = Inr (Pulls (Refs spec) ! 0)"
    if "?reads \<longrightarrow> Pulls (Refs spec) \<noteq> []" "?reads"
    using that by (simp add: go_index_def)
  have out_of_range: "go_index (Pulls (Refs spec)) 0 = Inl IndexOutOfRange"
    if "Pulls (Refs spec) = []"
    using that by (simp add: go_index_def)
  have panics: "EnvForSpec rs spec = Inl IndexOutOfRange"
    if "?reads" "Pulls (Refs spec) = []"
  proof -
    from that(1) have r: "Type spec \<noteq> PeriodicJob" "Type spec \<noteq> PostsubmitJob"
      "Type spec \<noteq> BatchJob" by simp_all
    show ?thesis unfolding EnvForSpec_reads_pull [OF r] out_of_range [OF that(2)] by simp
  qed
  have pre_reads: "?reads" if "Type spec = PresubmitJob"
    using that by simp
  show ?thesis
    using total in_range out_of_range panics pre_reads by blast
qed

theorem EnvForSpec_total_unless_pull_missing_witness:
  "(\<exists>env. EnvForSpec example_RefsString (example_spec PresubmitJob example_Refs) = Inr env) \<and>
   go_index (Pulls example_Refs) 0 = Inr \<lparr>Number = 42, SHA = ''def456''\<rparr> \<and>
   EnvForSpec example_RefsString (example_spec ''release'' zero_Refs) = Inl IndexOutOfRange \<and>
   EnvForSpec example_RefsString (example_spec PresubmitJob zero_Refs) = Inl IndexOutOfRange"
proof -
  have t: "Type (example_spec ty refs) = ty" "Refs (example_spec ty refs) = refs" for ty refs
    by (simp_all add: example_spec_def)
  have p: "Pulls example_Refs = [\<lparr>Number = 42, SHA = ''def456''\<rparr>]" "Pulls zero_Refs = []"
    by (simp_all add: example_Refs_def zero_Refs_def)
  have r: "''release'' \<noteq> PeriodicJob" "''release'' \<noteq> PostsubmitJob" "''release'' \<noteq> BatchJob"
    by (simp_all add: PeriodicJob_def PostsubmitJob_def BatchJob_def)
  show ?thesis
    using EnvForSpec_total_unless_pull_missing
        [of "example_spec PresubmitJob example_Refs" example_RefsString]
      EnvForSpec_total_unless_pull_missing
        [of "example_spec ''release'' zero_Refs" example_RefsString]
      EnvForSpec_total_unless_pull_missing
        [of "example_spec PresubmitJob zero_Refs" example_RefsString]
    by (simp add: t p r)
qed

section \<open>Properties of PartitionPending\<close>

lemma pendingCount_range_eq:
  "pendingCount_range c pjs =
     c + int (length (filter (\<lambda>pj. State (Status pj) = PendingState) pjs))"
  by (induction pjs arbitrary: c) simp_all

lemma partition_range_eq:
  assumes "\<not> closed pending" and "\<not> closed nonPending"
    and "length (buffer pending) + length (filter (\<lambda>pj. State (Status pj) = PendingState) pjs)
         \<le> capacity pending"
    and "length (buffer nonPending) + length (filter (\<lambda>pj. State (Status pj) \<noteq> PendingState) pjs)
         \<le> capacity nonPending"
  shows "partition_range pending nonPending pjs =
     Inr (pending\<lparr>buffer := buffer pending @ filter (\<lambda>pj. State (Status pj) = PendingState) pjs\<rparr>,
          nonPending\<lparr>buffer := buffer nonPending @
            filter (\<lambda>pj. State (Status pj) \<noteq> PendingState) pjs\<rparr>)"
  using assms
proof (induction pjs arbitrary: pending nonPending)
  case Nil
  then show ?case by simp
next
  case (Cons pj pjs)
  show ?case
  proof (cases "State (Status pj) = PendingState")
    case True
    let ?p = "pending\<lparr>buffer := buffer pending @ [pj]\<rparr>"
    have s: "send pending pj = Inr ?p"
      using Cons.prems True by (simp add: send_def)
    have "partition_range ?p nonPending pjs =
       Inr (?p\<lparr>buffer := buffer ?p @ filter (\<lambda>pj. State (Status pj) = PendingState) pjs\<rparr>,
            nonPending\<lparr>buffer := buffer nonPending @
              filter (\<lambda>pj. State (Status pj) \<noteq> PendingState) pjs\<rparr>)"
      using Cons.prems True by (intro Cons.IH) simp_all
    then show ?thesis using True s by simp
  next
    case False
    let ?n = "nonPending\<lparr>buffer := buffer nonPending @ [pj]\<rparr>"
    have s: "send nonPending pj = Inr ?n"
      using Cons.prems False by (simp add: send_def)
    have "partition_range pending ?n pjs =
       Inr (pending\<lparr>buffer := buffer pending @ filter (\<lambda>pj. State (Status pj) = PendingState) pjs\<rparr>,
            ?n\<lparr>buffer := buffer ?n @
              filter (\<lambda>pj. State (Status pj) \<noteq> PendingState) pjs\<rparr>)"
      using Cons.prems False by (intro Cons.IH) simp_all
    then show ?thesis using False s by simp
  qed
qed

lemma PartitionPending_eq:
  "PartitionPending pjs =
     Inr (\<lparr>capacity = length (filter (\<lambda>pj. State (Status pj) = PendingState) pjs),
           buffer = filter (\<lambda>pj. State (Status pj) = PendingState) pjs, closed = True\<rparr>,
          \<lparr>capacity = length (filter (\<lambda>pj. State (Status pj) \<noteq> PendingState) pjs),
           buffer = filter (\<lambda>pj. State (Status pj) \<noteq> PendingState) pjs, closed = True\<rparr>)"
proof -
  let ?P = "\<lambda>pj. State (Status pj) = PendingState"
  let ?N = "\<lambda>pj. State (Status pj) \<noteq> PendingState"
  have len: "length (filter ?P pjs) + length (filter ?N pjs) = length pjs"
    using sum_length_filter_compl [of ?P pjs] by simp
  have c: "pendingCount_range 0 pjs = int (length (filter ?P pjs))"
    by (simp add: pendingCount_range_eq)
  have m1: "make_chan (pendingCount_range 0 pjs) =
      Inr \<lparr>capacity = length (filter ?P pjs), buffer = [], closed = False\<rparr>"
    by (simp add: c make_chan_def)
  have d: "int (length pjs) - pendingCount_range 0 pjs = int (length (filter ?N pjs))"
    using len c by linarith
  have m2: "make_chan (int (length pjs) - pendingCount_range 0 pjs) =
      Inr \<lparr>capacity = length (filter ?N pjs), buffer = [], closed = False\<rparr>"
    by (simp add: d make_chan_def)
  have p: "partition_range \<lparr>capacity = length (filter ?P pjs), buffer = [], closed = False\<rparr>
      \<lparr>capacity = length (filter ?N pjs), buffer = [], closed = False\<rparr> pjs =
      Inr (\<lparr>capacity = length (filter ?P pjs), buffer = filter ?P pjs, closed = False\<rparr>,
           \<lparr>capacity = length (filter ?N pjs), buffer = filter ?N pjs, closed = False\<rparr>)"
    by (subst partition_range_eq) simp_all
  show ?thesis
    unfolding PartitionPending_def Let_def m1 m2 by (simp add: p close_def)
qed

text \<open>
  Claim C5: \<open>PartitionPending\<close> returns two channels, and no send blocks. The values
  buffered on the first are the instances of the input whose state is Pending, in input
  order; those on the second are the other instances, in input order. Every instance of
  the input is on exactly one of the two: the two buffers together hold the instances of
  the input with their multiplicities, and an instance is on the first exactly when its
  state is Pending.
\<close>

theorem PartitionPending_stable_partition:
  "\<exists>pending nonPending.
     PartitionPending pjs = Inr (pending, nonPending) \<and>
     buffer pending = filter (\<lambda>pj. State (Status pj) = PendingState) pjs \<and>
     buffer nonPending = filter (\<lambda>pj. State (Status pj) \<noteq> PendingState) pjs \<and>
     mset (buffer pending) + mset (buffer nonPending) = mset pjs \<and>
     (pj \<in> set (buffer pending) \<longleftrightarrow> pj \<in> set pjs \<and> State (Status pj) = PendingState) \<and>
     (pj \<in> set (buffer nonPending) \<longleftrightarrow> pj \<in> set pjs \<and> State (Status pj) \<noteq> PendingState) \<and>
     capacity pending = length (buffer pending) \<and>
     capacity nonPending = length (buffer nonPending) \<and>
     closed pending \<and> closed nonPending"
proof -
  have "mset (filter (\<lambda>pj. State (Status pj) = PendingState) pjs) +
      mset (filter (\<lambda>pj. State (Status pj) \<noteq> PendingState) pjs) = mset pjs"
    by (induction pjs) simp_all
  then show ?thesis
    unfolding PartitionPending_eq by simp
qed

theorem PartitionPending_stable_partition_witness:
  "\<exists>pending nonPending.
     PartitionPending
       [example_ProwJob ''j0'' PresubmitJob ''a'' 1 TriggeredState,
        example_ProwJob ''j1'' PresubmitJob ''b'' 2 PendingState,
        example_ProwJob ''j2'' PeriodicJob ''c'' 3 SuccessState,
        example_ProwJob ''j3'' BatchJob ''d'' 4 PendingState,
        example_ProwJob ''j4'' PostsubmitJob ''e'' 5 FailureState] = Inr (pending, nonPending) \<and>
     buffer pending =
       [example_ProwJob ''j1'' PresubmitJob ''b'' 2 PendingState,
        example_ProwJob ''j3'' BatchJob ''d'' 4 PendingState] \<and>
     buffer nonPending =
       [example_ProwJob ''j0'' PresubmitJob ''a'' 1 TriggeredState,
        example_ProwJob ''j2'' PeriodicJob ''c'' 3 SuccessState,
        example_ProwJob ''j4'' PostsubmitJob ''e'' 5 FailureState]"
proof -
  have s: "State (Status (example_ProwJob i ty n t st)) = st" for i ty n t st
    by (simp add: example_ProwJob_def)
  from PartitionPending_stable_partition [of "[example_ProwJob ''j0'' PresubmitJob ''a'' 1 TriggeredState,
        example_ProwJob ''j1'' PresubmitJob ''b'' 2 PendingState,
        example_ProwJob ''j2'' PeriodicJob ''c'' 3 SuccessState,
        example_ProwJob ''j3'' BatchJob ''d'' 4 PendingState,
        example_ProwJob ''j4'' PostsubmitJob ''e'' 5 FailureState]"]
  obtain pending nonPending where
    "PartitionPending
       [example_ProwJob ''j0'' PresubmitJob ''a'' 1 TriggeredState,
        example_ProwJob ''j1'' PresubmitJob ''b'' 2 PendingState,
        example_ProwJob ''j2'' PeriodicJob ''c'' 3 SuccessState,
        example_ProwJob ''j3'' BatchJob ''d'' 4 PendingState,
        example_ProwJob ''j4'' PostsubmitJob ''e'' 5 FailureState] = Inr (pending, nonPending)"
    "buffer pending = filter (\<lambda>pj. State (Status pj) = PendingState)
       [example_ProwJob ''j0'' PresubmitJob ''a'' 1 TriggeredState,
        example_ProwJob ''j1'' PresubmitJob ''b'' 2 PendingState,
        example_ProwJob ''j2'' PeriodicJob ''c'' 3 SuccessState,
        example_ProwJob ''j3'' BatchJob ''d'' 4 PendingState,
        example_ProwJob ''j4'' PostsubmitJob ''e'' 5 FailureState]"
    "buffer nonPending = filter (\<lambda>pj. State (Status pj) \<noteq> PendingState)
       [example_ProwJob ''j0'' PresubmitJob ''a'' 1 TriggeredState,
        example_ProwJob ''j1'' PresubmitJob ''b'' 2 PendingState,
        example_ProwJob ''j2'' PeriodicJob ''c'' 3 SuccessState,
        example_ProwJob ''j3'' BatchJob ''d'' 4 PendingState,
        example_ProwJob ''j4'' PostsubmitJob ''e'' 5 FailureState]"
    by blast
  then show ?thesis by (intro exI [of _ pending] exI [of _ nonPending]) (simp add: s)
qed

section \<open>Properties of kubeEnv\<close>

lemma kubeEnv_names:
  "set keys \<subseteq> dom env \<Longrightarrow> map EnvName (kubeEnv keys env) = keys"
  by (induction keys) (auto simp: kubeEnv_def)

lemma kubeEnv_map_of:
  "set keys \<subseteq> dom env \<Longrightarrow>
   map_of (map (\<lambda>e. (EnvName e, EnvValue e)) (kubeEnv keys env)) k =
     (if k \<in> set keys then env k else None)"
  by (induction keys) (auto simp: kubeEnv_def)

lemma kubeEnv_serializes:
  assumes "range_order env keys"
  shows "distinct (map EnvName (kubeEnv keys env)) \<and>
    map_of (map (\<lambda>e. (EnvName e, EnvValue e)) (kubeEnv keys env)) = env"
proof
  from assms have s: "set keys \<subseteq> dom env" and d: "distinct keys" and e: "set keys = dom env"
    by (simp_all add: range_order_def)
  show "distinct (map EnvName (kubeEnv keys env))"
    using d by (simp add: kubeEnv_names [OF s])
  show "map_of (map (\<lambda>e. (EnvName e, EnvValue e)) (kubeEnv keys env)) = env"
  proof
    fix k
    show "map_of (map (\<lambda>e. (EnvName e, EnvValue e)) (kubeEnv keys env)) k = env k"
      unfolding kubeEnv_map_of [OF s] using e by (auto simp: dom_def)
  qed
qed

section \<open>Properties of append on slices in memory\<close>

lemma extends_refl: "extends mem mem"
  by (simp add: extends_def)

lemma extends_trans: "extends m1 m2 \<Longrightarrow> extends m2 m3 \<Longrightarrow> extends m1 m3"
  by (auto simp: extends_def)

lemma slice_ok_extends: "slice_ok mem t \<Longrightarrow> extends mem mem' \<Longrightarrow> slice_ok mem' t"
  by (auto simp: slice_ok_def extends_def)

lemma elements_nth:
  assumes "ptr t < length mem" "off t + len t \<le> length (mem ! ptr t)"
  shows "length (elements mem t) = len t"
    and "i < len t \<Longrightarrow> elements mem t ! i = mem ! ptr t ! (off t + i)"
  using assms by (simp_all add: elements_def)

lemma elements_empty: "len t = 0 \<Longrightarrow> elements mem t = []"
  by (simp add: elements_def)

lemma written_length:
  "k + length vs \<le> length arr \<Longrightarrow>
   length (take k arr @ vs @ drop (k + length vs) arr) = length arr"
  by simp

lemma written_nth:
  assumes "k + length vs \<le> length arr" "i < length arr"
  shows "(take k arr @ vs @ drop (k + length vs) arr) ! i =
     (if k \<le> i \<and> i < k + length vs then vs ! (i - k) else arr ! i)"
proof -
  consider "i < k" | "k \<le> i" "i < k + length vs" | "k + length vs \<le> i" by linarith
  then show ?thesis
  proof cases
    case 1
    then show ?thesis using assms by (simp add: nth_append)
  next
    case 2
    have lt: "length (take k arr) = k" using assms by simp
    have ik: "i - k < length vs" using 2 by arith
    have "(take k arr @ vs @ drop (k + length vs) arr) ! i =
        (vs @ drop (k + length vs) arr) ! (i - k)"
      using 2 lt by (simp add: nth_append)
    also have "\<dots> = vs ! (i - k)" using ik by (simp add: nth_append)
    finally show ?thesis using 2 by simp
  next
    case 3
    have lt: "length (take k arr) = k" using assms by simp
    have "(take k arr @ vs @ drop (k + length vs) arr) ! i =
        (vs @ drop (k + length vs) arr) ! (i - k)"
      using 3 lt by (simp add: nth_append)
    also have "\<dots> = drop (k + length vs) arr ! (i - k - length vs)"
    proof -
      have "\<not> i - k < length vs" using 3 by arith
      then show ?thesis by (simp only: nth_append if_False)
    qed
    also have "\<dots> = arr ! i" using 3 assms by simp
    finally show ?thesis using 3 by simp
  qed
qed

lemma go_append_in_place:
  assumes "len s + length vs \<le> cap s"
  shows "go_append g mem s vs =
    (mem[ptr s := take (off s + len s) (mem ! ptr s) @ vs @
           drop (off s + len s + length vs) (mem ! ptr s)],
     s\<lparr>len := len s + length vs\<rparr>)"
  using assms by (simp add: go_append_def Let_def add.assoc)

lemma go_append_alloc:
  assumes "cap s < len s + length vs"
  shows "go_append g mem s vs =
    (mem @ [elements mem s @ vs @
              replicate (max (len s + length vs) (g (cap s) (len s + length vs)) -
                         (len s + length vs)) zero_EnvVar],
     \<lparr>ptr = length mem, off = 0, len = len s + length vs,
      cap = max (len s + length vs) (g (cap s) (len s + length vs))\<rparr>)"
  using assms by (simp add: go_append_def Let_def)

lemma go_append_Nil:
  assumes "len s \<le> cap s"
  shows "go_append g mem s [] = (mem, s)"
  using assms by (simp add: go_append_def Let_def)

lemma cap_pos_ok:
  assumes "slice_ok mem s" "len s + length vs \<le> cap s" "vs \<noteq> []"
  shows "ptr s < length mem" "off s + cap s \<le> length (mem ! ptr s)"
proof -
  from assms(2,3) have "cap s \<noteq> 0" by (cases vs) auto
  then show "ptr s < length mem" "off s + cap s \<le> length (mem ! ptr s)"
    using assms(1) by (simp_all add: slice_ok_def)
qed

lemma go_append_extends:
  assumes "slice_ok mem s" "go_append g mem s vs = (mem', s')"
  shows "extends mem mem'"
proof (cases "len s + length vs \<le> cap s")
  case True
  let ?arr = "mem ! ptr s"
  let ?k = "off s + len s"
  have m: "mem' = mem[ptr s := take ?k ?arr @ vs @ drop (?k + length vs) ?arr]"
    using assms(2) unfolding go_append_in_place [OF True] by simp
  show ?thesis
  proof (cases "vs = []")
    case True
    then have "mem' = mem"
      using assms go_append_Nil [of s g mem] by (simp add: slice_ok_def)
    then show ?thesis by (simp add: extends_refl)
  next
    case False
    note c = cap_pos_ok [OF assms(1) True False]
    have "length (mem' ! a) = length (mem ! a)" if "a < length mem" for a
    proof (cases "a = ptr s")
      case True
      have "?k + length vs \<le> length ?arr"
        using c \<open>len s + length vs \<le> cap s\<close> by simp
      from written_length [OF this] show ?thesis using True that m by simp
    next
      case False
      then show ?thesis using m by simp
    qed
    then show ?thesis using m by (simp add: extends_def)
  qed
next
  case False
  then have "cap s < len s + length vs" by simp
  from go_append_alloc [OF this, of g mem] assms(2) obtain new where "mem' = mem @ [new]"
    by auto
  then show ?thesis by (simp add: extends_def nth_append)
qed

lemma go_append_frame:
  assumes "slice_ok mem s" "slice_ok mem t" "outside_spare s t"
    and "go_append g mem s vs = (mem', s')"
  shows "elements mem' t = elements mem t"
proof (cases "len t = 0")
  case True
  then show ?thesis by (simp add: elements_empty)
next
  case nonempty: False
  then have t: "ptr t < length mem" "off t + cap t \<le> length (mem ! ptr t)" "len t \<le> cap t"
    using assms(2) by (auto simp: slice_ok_def)
  show ?thesis
  proof (cases "len s + length vs \<le> cap s")
    case True
    let ?arr = "mem ! ptr s"
    let ?k = "off s + len s"
    have m: "mem' = mem[ptr s := take ?k ?arr @ vs @ drop (?k + length vs) ?arr]"
      using assms(4) unfolding go_append_in_place [OF True] by simp
    show ?thesis
    proof (cases "ptr t = ptr s \<and> vs \<noteq> []")
      case False
      show ?thesis
      proof (cases "vs = []")
        case True
        then have "mem' = mem"
          using assms(1,4) go_append_Nil [of s g mem] by (simp add: slice_ok_def)
        then show ?thesis by simp
      next
        case False
        with \<open>\<not> (ptr t = ptr s \<and> vs \<noteq> [])\<close> have "ptr t \<noteq> ptr s" by simp
        then show ?thesis using m by (simp add: elements_def)
      qed
    next
      case sv: True
      then have same: "ptr t = ptr s" and "vs \<noteq> []" by simp_all
      note c = cap_pos_ok [OF assms(1) True \<open>vs \<noteq> []\<close>]
      have s: "off s + cap s \<le> length ?arr" using c by simp
      then have w: "?k + length vs \<le> length ?arr" using True by simp
      have arr': "mem' ! ptr t = take ?k ?arr @ vs @ drop (?k + length vs) ?arr"
        using m same t(1) by simp
      have len': "length (mem' ! ptr t) = length (mem ! ptr t)"
        unfolding arr' using written_length [OF w] same by simp
      have lm: "length mem' = length mem" using m by simp
      have "0 < length vs" using \<open>vs \<noteq> []\<close> by simp
      then have "\<not> cap s \<le> len s" using True by arith
      then have region: "off t + len t \<le> ?k \<or> ?k + length vs \<le> off t"
        using assms(3) nonempty same True by (auto simp: outside_spare_def)
      show ?thesis
      proof (rule nth_equalityI)
        show "length (elements mem' t) = length (elements mem t)"
          using t len' lm by (simp add: elements_def)
      next
        fix i
        assume "i < length (elements mem' t)"
        then have i: "i < len t" using t len' lm by (simp add: elements_def)
        have "elements mem' t ! i = mem' ! ptr t ! (off t + i)"
          using elements_nth(2) [of t mem' i] t len' lm i by simp
        also have "\<dots> = (if ?k \<le> off t + i \<and> off t + i < ?k + length vs
            then vs ! (off t + i - ?k) else ?arr ! (off t + i))"
          unfolding arr' using written_nth [OF w, of "off t + i"] t i same by simp
        also have "\<dots> = ?arr ! (off t + i)" using region i by auto
        also have "\<dots> = elements mem t ! i"
          using elements_nth(2) [of t mem i] t i same by simp
        finally show "elements mem' t ! i = elements mem t ! i" .
      qed
    qed
  next
    case False
    then have "cap s < len s + length vs" by simp
    from go_append_alloc [OF this, of g mem] assms(4) obtain new where "mem' = mem @ [new]"
      by auto
    then show ?thesis using t(1) by (simp add: elements_def nth_append)
  qed
qed

lemma go_append_result:
  assumes "slice_ok mem s" "go_append g mem s vs = (mem', s')"
  shows "slice_ok mem' s' \<and> elements mem' s' = elements mem s @ vs"
proof (cases "len s + length vs \<le> cap s")
  case True
  let ?arr = "mem ! ptr s"
  let ?k = "off s + len s"
  have m: "mem' = mem[ptr s := take ?k ?arr @ vs @ drop (?k + length vs) ?arr]"
    and s': "s' = s\<lparr>len := len s + length vs\<rparr>"
    using assms(2) unfolding go_append_in_place [OF True] by simp_all
  show ?thesis
  proof (cases "vs = []")
    case True
    then have "mem' = mem" "s' = s"
      using assms go_append_Nil [of s g mem] by (simp_all add: slice_ok_def)
    then show ?thesis using assms(1) True by simp
  next
    case False
    have p: "ptr s < length mem" and c: "off s + cap s \<le> length ?arr"
      using cap_pos_ok [OF assms(1) True False] by simp_all
    have w: "?k + length vs \<le> length ?arr" using c True by simp
    have arr': "mem' ! ptr s = take ?k ?arr @ vs @ drop (?k + length vs) ?arr"
      using m p by simp
    have len': "length (mem' ! ptr s) = length ?arr"
      unfolding arr' by (rule written_length [OF w])
    have ok: "slice_ok mem' s'"
      using assms(1) p c True len' s' m by (simp add: slice_ok_def)
    have "elements mem' s' = elements mem s @ vs"
    proof (rule nth_equalityI)
      show "length (elements mem' s') = length (elements mem s @ vs)"
        using p c True len' s' m by (simp add: elements_def)
    next
      fix i
      assume "i < length (elements mem' s')"
      then have i: "i < len s + length vs" using p c True len' s' m by (simp add: elements_def)
      have "elements mem' s' ! i = mem' ! ptr s ! (off s + i)"
        using elements_nth(2) [of s' mem' i] p c True len' s' m i by simp
      also have "\<dots> = (if ?k \<le> off s + i \<and> off s + i < ?k + length vs
          then vs ! (off s + i - ?k) else ?arr ! (off s + i))"
        unfolding arr' using written_nth [OF w, of "off s + i"] w i by simp
      also have "\<dots> = (elements mem s @ vs) ! i"
      proof (cases "i < len s")
        case True
        then show ?thesis
          using elements_nth(1) [of s mem] elements_nth(2) [of s mem i] p c
            \<open>len s + length vs \<le> cap s\<close>
          by (simp add: nth_append)
      next
        case False
        then show ?thesis
          using elements_nth(1) [of s mem] p c \<open>len s + length vs \<le> cap s\<close> i
          by (simp add: nth_append)
      qed
      finally show "elements mem' s' ! i = (elements mem s @ vs) ! i" .
    qed
    with ok show ?thesis by simp
  qed
next
  case False
  then have a: "cap s < len s + length vs" by simp
  let ?n = "len s + length vs"
  let ?c = "max ?n (g (cap s) ?n)"
  have m: "mem' = mem @ [elements mem s @ vs @ replicate (?c - ?n) zero_EnvVar]"
    and s': "s' = \<lparr>ptr = length mem, off = 0, len = ?n, cap = ?c\<rparr>"
    using assms(2) unfolding go_append_alloc [OF a] by simp_all
  have l: "length (elements mem s) = len s"
  proof (cases "cap s = 0")
    case True
    then have "len s = 0" using assms(1) by (simp add: slice_ok_def)
    then show ?thesis by (simp add: elements_empty)
  next
    case False
    then have "ptr s < length mem" "off s + len s \<le> length (mem ! ptr s)"
      using assms(1) by (auto simp: slice_ok_def)
    then show ?thesis by (rule elements_nth(1))
  qed
  show ?thesis
    using l unfolding m s' by (simp add: slice_ok_def elements_def)
qed

section \<open>Properties of ProwJobToPod\<close>

lemma ProwJobToPod_range_frame:
  assumes "\<forall>c\<in>set cs. slice_ok mem (Env c) \<and> outside_spare (Env c) t"
    and "slice_ok mem t"
    and "ProwJobToPod_range g order env name mem cs i acc = (mem', cs')"
  shows "elements mem' t = elements mem t \<and> extends mem mem'"
  using assms
proof (induction cs arbitrary: mem i acc)
  case Nil
  then show ?case by (simp add: extends_refl)
next
  case (Cons c cs)
  obtain mem1 e1 where a: "go_append g mem (Env c) (kubeEnv (order i) env) = (mem1, e1)"
    by (cases "go_append g mem (Env c) (kubeEnv (order i) env)")
  have ok: "slice_ok mem (Env c)" and out: "outside_spare (Env c) t"
    using Cons.prems(1) by simp_all
  have f: "elements mem1 t = elements mem t"
    by (rule go_append_frame [OF ok Cons.prems(2) out a])
  have e: "extends mem mem1" by (rule go_append_extends [OF ok a])
  have rest: "\<forall>c\<in>set cs. slice_ok mem1 (Env c) \<and> outside_spare (Env c) t"
    using Cons.prems(1) slice_ok_extends [OF _ e] by simp
  have t1: "slice_ok mem1 t" using Cons.prems(2) e by (rule slice_ok_extends)
  have r: "ProwJobToPod_range g order env name mem1 cs (Suc i)
      (acc @ [c\<lparr>Name := Sprintf_name_index name i, Env := e1\<rparr>]) = (mem', cs')"
    using Cons.prems(3) a by simp
  from Cons.IH [OF rest t1 r] f e show ?case
    by (auto intro: extends_trans)
qed

lemma ProwJobSpec_value_cong:
  "\<forall>t\<in>set (Env_slices spec). elements mem' t = elements mem t \<Longrightarrow>
   ProwJobSpec_value mem' spec = ProwJobSpec_value mem spec"
proof (induction spec rule: Env_slices.induct)
  case (1 ty agent job refs report ctx rerun maxc podspec ras)
  have p: "PodSpec_value mem' podspec = PodSpec_value mem podspec"
    using "1.prems" by (simp add: PodSpec_value_def Container_value_def)
  have "map (ProwJobSpec_value mem') ras = map (ProwJobSpec_value mem) ras"
    using "1.IH" "1.prems" by (intro map_cong) auto
  with p show ?case by simp
qed

lemma ProwJobToPod_Inr:
  assumes "EnvForSpec rs (Spec pj) = Inr env0"
    and "ProwJobToPod_range g order (env0(''BUILD_NUMBER'' \<mapsto> buildID))
           (MetaName (Metadata pj)) mem (Containers (PodSpec (Spec pj))) 0 [] = (mem', cs')"
  shows "\<exists>pod. ProwJobToPod g rs order mem pj buildID = Inr (mem', pod) \<and>
    Containers (PodSpecOf pod) = cs' \<and> RestartPolicy (PodSpecOf pod) = ''Never''"
  using assms by (simp add: ProwJobToPod_def Let_def)

lemma ProwJobToPod_Inl:
  "EnvForSpec rs (Spec pj) = Inl e \<Longrightarrow> ProwJobToPod g rs order mem pj buildID = Inl e"
  by (simp add: ProwJobToPod_def)

lemmas example_pod_eval = ProwJobToPod_def EnvForSpec_def example_order_def
  example_growslice_def kubeEnv_def go_append_def Sprintf_name_index_def Itoa_def
  decimal.simps Let_def elements_def

text \<open>
  Claim C4: container \<open>i\<close> of the pod is a copy of container \<open>i\<close> of the instance, renamed,
  whose environment list is the container's own entries followed by the serialized
  environment with \<open>BUILD_NUMBER\<close>. \<open>ProwJobToPod\<close> copies the container, and with it the
  slice header of its \<^verbatim>\<open>Env\<close>, but not the backing array, and \<^verbatim>\<open>append\<close> writes into
  that array where it has room. At the instance below the \<^verbatim>\<open>Env\<close> of the first
  container is \<^verbatim>\<open>arr[0:1]\<close> and the \<^verbatim>\<open>Env\<close> of the second is \<^verbatim>\<open>arr[0:2]\<close> of one
  array of capacity 4, holding \<open>GOPATH\<close> and \<open>HOME\<close>. \<open>EnvForSpec\<close> returns for it. When
  both rounds of the loop iterate the environment as \<open>JOB_NAME\<close>, \<open>BUILD_NUMBER\<close>, the
  first container of the returned pod has no \<open>BUILD_NUMBER\<close> and the second has lost its
  own entry \<open>HOME\<close>; when the second round iterates the other way round, the second
  container has lost \<open>HOME\<close> all the same. So the code does not produce the pod of the
  claim at this instance.
\<close>

theorem ProwJobToPod_overlapping_Env_containers:
  "EnvForSpec example_RefsString (Spec example_overlap_ProwJob) =
     Inr [''JOB_NAME'' \<mapsto> ''nightly''] \<and>
   map (elements example_overlap_memory \<circ> Env)
     (Containers (PodSpec (Spec example_overlap_ProwJob))) =
     [[\<lparr>EnvName = ''GOPATH'', EnvValue = ''/go''\<rparr>],
         [\<lparr>EnvName = ''GOPATH'', EnvValue = ''/go''\<rparr>,
          \<lparr>EnvName = ''HOME'', EnvValue = ''/root''\<rparr>]] \<and>
   map_sum id (\<lambda>(mem', pod). map (elements mem' \<circ> Env) (Containers (PodSpecOf pod)))
     (ProwJobToPod example_growslice example_RefsString example_uniform_order
        example_overlap_memory example_overlap_ProwJob ''7'') =
     Inr [[\<lparr>EnvName = ''GOPATH'', EnvValue = ''/go''\<rparr>,
          \<lparr>EnvName = ''JOB_NAME'', EnvValue = ''nightly''\<rparr>,
          \<lparr>EnvName = ''JOB_NAME'', EnvValue = ''nightly''\<rparr>],
         [\<lparr>EnvName = ''GOPATH'', EnvValue = ''/go''\<rparr>,
          \<lparr>EnvName = ''JOB_NAME'', EnvValue = ''nightly''\<rparr>,
          \<lparr>EnvName = ''JOB_NAME'', EnvValue = ''nightly''\<rparr>,
          \<lparr>EnvName = ''BUILD_NUMBER'', EnvValue = ''7''\<rparr>]] \<and>
   map_sum id (\<lambda>(mem', pod). map (elements mem' \<circ> Env) (Containers (PodSpecOf pod)))
     (ProwJobToPod example_growslice example_RefsString example_order
        example_overlap_memory example_overlap_ProwJob ''7'') =
     Inr [[\<lparr>EnvName = ''GOPATH'', EnvValue = ''/go''\<rparr>,
          \<lparr>EnvName = ''JOB_NAME'', EnvValue = ''nightly''\<rparr>,
          \<lparr>EnvName = ''BUILD_NUMBER'', EnvValue = ''7''\<rparr>],
         [\<lparr>EnvName = ''GOPATH'', EnvValue = ''/go''\<rparr>,
          \<lparr>EnvName = ''JOB_NAME'', EnvValue = ''nightly''\<rparr>,
          \<lparr>EnvName = ''BUILD_NUMBER'', EnvValue = ''7''\<rparr>,
          \<lparr>EnvName = ''JOB_NAME'', EnvValue = ''nightly''\<rparr>]]"
  by (simp add: example_pod_eval example_uniform_order_def example_overlap_ProwJob_def
      example_overlap_memory_def)

text \<open>
  Claim C9: \<open>ProwJobToPod\<close> leaves the job instance unchanged, and no later mutation of
  the returned pod can change the instance. The comment in \<open>ProwJobToPod\<close> says that the
  spec is not to be updated in place and that a copy is made; the labels are copied into
  a new map, but the \<^verbatim>\<open>Env\<close> of a copied container still refers to the backing array
  of the instance's. First, at an instance with one container whose \<^verbatim>\<open>Env\<close> has one
  entry in an array of capacity 4, \<^verbatim>\<open>append\<close> writes in place and the \<^verbatim>\<open>Env\<close> of
  the pod's container is a slice of the same array: in the memory after the call,
  assigning to element 0 of the pod's slice changes what the instance holds. Second, at
  the instance with two containers whose \<^verbatim>\<open>Env\<close> slices overlap in one array, the
  call itself changes the instance: the entry \<open>HOME\<close> of its second container is
  overwritten.
\<close>

theorem ProwJobToPod_updates_instance_in_place:
  "map_sum id (map_prod id (map Env \<circ> Containers \<circ> PodSpecOf))
     (ProwJobToPod example_growslice example_RefsString example_order example_memory
        example_mem_ProwJob ''7'') =
     Inr ([[\<lparr>EnvName = ''GOPATH'', EnvValue = ''/go''\<rparr>,
          \<lparr>EnvName = ''JOB_NAME'', EnvValue = ''nightly''\<rparr>,
          \<lparr>EnvName = ''BUILD_NUMBER'', EnvValue = ''7''\<rparr>,
          zero_EnvVar]], [\<lparr>ptr = 0, off = 0, len = 3, cap = 4\<rparr>]) \<and>
   slice_assign [[\<lparr>EnvName = ''GOPATH'', EnvValue = ''/go''\<rparr>,
        \<lparr>EnvName = ''JOB_NAME'', EnvValue = ''nightly''\<rparr>,
        \<lparr>EnvName = ''BUILD_NUMBER'', EnvValue = ''7''\<rparr>,
        zero_EnvVar]]
       \<lparr>ptr = 0, off = 0, len = 3, cap = 4\<rparr> 0
       \<lparr>EnvName = ''GOPATH'', EnvValue = ''/tmp''\<rparr> =
     Inr [[\<lparr>EnvName = ''GOPATH'', EnvValue = ''/tmp''\<rparr>,
          \<lparr>EnvName = ''JOB_NAME'', EnvValue = ''nightly''\<rparr>,
          \<lparr>EnvName = ''BUILD_NUMBER'', EnvValue = ''7''\<rparr>,
          zero_EnvVar]] \<and>
   map Env (Containers (PodSpec (Spec (ProwJob_value example_memory example_mem_ProwJob)))) =
     [[\<lparr>EnvName = ''GOPATH'', EnvValue = ''/go''\<rparr>]] \<and>
   map Env (Containers (PodSpec (Spec
     (ProwJob_value [[\<lparr>EnvName = ''GOPATH'', EnvValue = ''/tmp''\<rparr>,
          \<lparr>EnvName = ''JOB_NAME'', EnvValue = ''nightly''\<rparr>,
          \<lparr>EnvName = ''BUILD_NUMBER'', EnvValue = ''7''\<rparr>,
          zero_EnvVar]]
         example_mem_ProwJob)))) =
     [[\<lparr>EnvName = ''GOPATH'', EnvValue = ''/tmp''\<rparr>]] \<and>
   ProwJob_value [[\<lparr>EnvName = ''GOPATH'', EnvValue = ''/tmp''\<rparr>,
        \<lparr>EnvName = ''JOB_NAME'', EnvValue = ''nightly''\<rparr>,
        \<lparr>EnvName = ''BUILD_NUMBER'', EnvValue = ''7''\<rparr>,
        zero_EnvVar]]
       example_mem_ProwJob \<noteq>
     ProwJob_value example_memory example_mem_ProwJob \<and>
   map Env (Containers (PodSpec (Spec
     (ProwJob_value example_overlap_memory example_overlap_ProwJob)))) =
     [[\<lparr>EnvName = ''GOPATH'', EnvValue = ''/go''\<rparr>],
         [\<lparr>EnvName = ''GOPATH'', EnvValue = ''/go''\<rparr>,
          \<lparr>EnvName = ''HOME'', EnvValue = ''/root''\<rparr>]] \<and>
   map_sum id (\<lambda>(mem', pod). map Env (Containers (PodSpec (Spec
       (ProwJob_value mem' example_overlap_ProwJob)))))
     (ProwJobToPod example_growslice example_RefsString example_order
        example_overlap_memory example_overlap_ProwJob ''7'') =
     Inr [[\<lparr>EnvName = ''GOPATH'', EnvValue = ''/go''\<rparr>],
         [\<lparr>EnvName = ''GOPATH'', EnvValue = ''/go''\<rparr>,
          \<lparr>EnvName = ''JOB_NAME'', EnvValue = ''nightly''\<rparr>]]"
proof (intro conjI)
  show "map_sum id (map_prod id (map Env \<circ> Containers \<circ> PodSpecOf))
     (ProwJobToPod example_growslice example_RefsString example_order example_memory
        example_mem_ProwJob ''7'') =
     Inr ([[\<lparr>EnvName = ''GOPATH'', EnvValue = ''/go''\<rparr>,
          \<lparr>EnvName = ''JOB_NAME'', EnvValue = ''nightly''\<rparr>,
          \<lparr>EnvName = ''BUILD_NUMBER'', EnvValue = ''7''\<rparr>,
          zero_EnvVar]], [\<lparr>ptr = 0, off = 0, len = 3, cap = 4\<rparr>])"
    by (simp add: example_pod_eval example_mem_ProwJob_def example_memory_def)
  show "slice_assign [[\<lparr>EnvName = ''GOPATH'', EnvValue = ''/go''\<rparr>,
       \<lparr>EnvName = ''JOB_NAME'', EnvValue = ''nightly''\<rparr>,
       \<lparr>EnvName = ''BUILD_NUMBER'', EnvValue = ''7''\<rparr>,
       zero_EnvVar]]
      \<lparr>ptr = 0, off = 0, len = 3, cap = 4\<rparr> 0
      \<lparr>EnvName = ''GOPATH'', EnvValue = ''/tmp''\<rparr> =
     Inr [[\<lparr>EnvName = ''GOPATH'', EnvValue = ''/tmp''\<rparr>,
          \<lparr>EnvName = ''JOB_NAME'', EnvValue = ''nightly''\<rparr>,
          \<lparr>EnvName = ''BUILD_NUMBER'', EnvValue = ''7''\<rparr>,
          zero_EnvVar]]"
    by (simp add: slice_assign_def)
  show "map Env (Containers (PodSpec (Spec
      (ProwJob_value example_memory example_mem_ProwJob)))) = [[\<lparr>EnvName = ''GOPATH'', EnvValue = ''/go''\<rparr>]]"
    by (simp add: ProwJob_value_def example_mem_ProwJob_def example_memory_def
        PodSpec_value_def Container_value_def elements_def)
  show "map Env (Containers (PodSpec (Spec
     (ProwJob_value [[\<lparr>EnvName = ''GOPATH'', EnvValue = ''/tmp''\<rparr>,
          \<lparr>EnvName = ''JOB_NAME'', EnvValue = ''nightly''\<rparr>,
          \<lparr>EnvName = ''BUILD_NUMBER'', EnvValue = ''7''\<rparr>,
          zero_EnvVar]]
         example_mem_ProwJob)))) = [[\<lparr>EnvName = ''GOPATH'', EnvValue = ''/tmp''\<rparr>]]"
    by (simp add: ProwJob_value_def example_mem_ProwJob_def
        PodSpec_value_def Container_value_def elements_def)
  show "ProwJob_value [[\<lparr>EnvName = ''GOPATH'', EnvValue = ''/tmp''\<rparr>,
       \<lparr>EnvName = ''JOB_NAME'', EnvValue = ''nightly''\<rparr>,
       \<lparr>EnvName = ''BUILD_NUMBER'', EnvValue = ''7''\<rparr>,
       zero_EnvVar]]
      example_mem_ProwJob \<noteq>
     ProwJob_value example_memory example_mem_ProwJob"
    by (simp add: ProwJob_value_def example_mem_ProwJob_def example_memory_def
        PodSpec_value_def Container_value_def elements_def)
  show "map Env (Containers (PodSpec (Spec
     (ProwJob_value example_overlap_memory example_overlap_ProwJob)))) = [[\<lparr>EnvName = ''GOPATH'', EnvValue = ''/go''\<rparr>],
         [\<lparr>EnvName = ''GOPATH'', EnvValue = ''/go''\<rparr>,
          \<lparr>EnvName = ''HOME'', EnvValue = ''/root''\<rparr>]]"
    by (simp add: ProwJob_value_def example_overlap_ProwJob_def example_overlap_memory_def
        PodSpec_value_def Container_value_def elements_def)
  show "map_sum id (\<lambda>(mem', pod). map Env (Containers (PodSpec (Spec
       (ProwJob_value mem' example_overlap_ProwJob)))))
     (ProwJobToPod example_growslice example_RefsString example_order
        example_overlap_memory example_overlap_ProwJob ''7'') =
     Inr [[\<lparr>EnvName = ''GOPATH'', EnvValue = ''/go''\<rparr>],
         [\<lparr>EnvName = ''GOPATH'', EnvValue = ''/go''\<rparr>,
          \<lparr>EnvName = ''JOB_NAME'', EnvValue = ''nightly''\<rparr>]]"
    by (simp add: example_pod_eval example_overlap_ProwJob_def example_overlap_memory_def
        ProwJob_value_def PodSpec_value_def Container_value_def)
qed

subsection \<open>Containers whose Env slices are separate\<close>

text \<open>
  When every \<^verbatim>\<open>Env\<close> slice of the instance is a slice of the memory whose elements lie
  outside the spare capacity of the \<^verbatim>\<open>Env\<close> slices of the containers, no \<^verbatim>\<open>append\<close>
  of the loop writes over an element of the instance: the instance reads the same through
  the memory after the call.
\<close>

lemma ProwJobToPod_outside_spare_frame:
  assumes "EnvForSpec rs (Spec pj) = Inr env0"
    and "\<forall>t\<in>set (Env_slices (Spec pj)).
           slice_ok mem t \<and>
           (\<forall>c\<in>set (Containers (PodSpec (Spec pj))). outside_spare (Env c) t)"
  shows "\<exists>mem' pod. ProwJobToPod g rs order mem pj buildID = Inr (mem', pod) \<and>
    ProwJob_value mem' pj = ProwJob_value mem pj"
proof -
  let ?cs = "Containers (PodSpec (Spec pj))"
  let ?env = "env0(''BUILD_NUMBER'' \<mapsto> buildID)"
  obtain mem' cs' where
    r: "ProwJobToPod_range g order ?env (MetaName (Metadata pj)) mem ?cs 0 [] = (mem', cs')"
    by (cases "ProwJobToPod_range g order ?env (MetaName (Metadata pj)) mem ?cs 0 []")
  from ProwJobToPod_Inr [OF assms(1) r] obtain pod where
    p: "ProwJobToPod g rs order mem pj buildID = Inr (mem', pod)"
    by blast
  have cs: "set (map Env ?cs) \<subseteq> set (Env_slices (Spec pj))"
    by (cases "Spec pj") simp
  have "elements mem' t = elements mem t" if t: "t \<in> set (Env_slices (Spec pj))" for t
  proof -
    have "\<forall>c\<in>set ?cs. slice_ok mem (Env c) \<and> outside_spare (Env c) t"
      using assms(2) t cs by auto
    moreover have "slice_ok mem t" using assms(2) t by simp
    ultimately show ?thesis using ProwJobToPod_range_frame [OF _ _ r] by blast
  qed
  then have "ProwJobSpec_value mem' (Spec pj) = ProwJobSpec_value mem (Spec pj)"
    by (intro ProwJobSpec_value_cong) simp
  then have "ProwJob_value mem' pj = ProwJob_value mem pj"
    by (simp add: ProwJob_value_def)
  with p show ?thesis by blast
qed

text \<open>
  When the \<^verbatim>\<open>Env\<close> slices of the containers are slices of the memory with pairwise
  separate capacities, the containers of the pod, read through the memory after the call,
  are the containers of the instance, read through the memory before the call, each
  renamed and with the serialized environment of its round behind its own entries.
\<close>

lemma separate_outside:
  assumes "separate s t" "slice_ok mem t"
  shows "outside_spare s t"
  using assms by (auto simp: separate_def outside_spare_def slice_ok_def)

lemma outside_own_spare: "outside_spare s s"
  by (simp add: outside_spare_def)

lemma go_append_outside:
  assumes "slice_ok mem s" "slice_ok mem t" "separate s t"
    and "go_append g mem s vs = (mem', s')"
  shows "outside_spare t s'"
proof (cases "len s + length vs \<le> cap s")
  case True
  then have s': "s' = s\<lparr>len := len s + length vs\<rparr>"
    using assms(4) unfolding go_append_in_place [OF True] by simp
  show ?thesis
    using assms(3) True unfolding s' by (auto simp: separate_def outside_spare_def)
next
  case False
  then have a: "cap s < len s + length vs" by simp
  have "ptr s' = length mem"
    using assms(4) unfolding go_append_alloc [OF a] by auto
  then show ?thesis
    using assms(2) by (auto simp: outside_spare_def slice_ok_def)
qed

lemma Container_value_cong:
  "elements mem' (Env c) = elements mem (Env c) \<Longrightarrow>
   Container_value mem' c = Container_value mem c"
  by (simp add: Container_value_def)

lemma ProwJobToPod_range_separate:
  assumes "\<forall>c\<in>set cs. slice_ok mem (Env c)"
    and "sorted_wrt separate (map Env cs)"
    and "\<forall>a\<in>set acc. slice_ok mem (Env a) \<and> (\<forall>c\<in>set cs. outside_spare (Env c) (Env a))"
    and "ProwJobToPod_range g order env name mem cs i acc = (mem', cs')"
  shows "map (Container_value mem') cs' =
     map (Container_value mem) acc @
     map (\<lambda>k. (Container_value mem (cs ! k))
                 \<lparr>Name := Sprintf_name_index name (i + k),
                  Env := elements mem (Env (cs ! k)) @ kubeEnv (order (i + k)) env\<rparr>)
       [0..<length cs]"
  using assms
proof (induction cs arbitrary: mem i acc)
  case Nil
  then show ?case by simp
next
  case (Cons c cs)
  let ?vs = "kubeEnv (order i) env"
  obtain mem1 e1 where a: "go_append g mem (Env c) ?vs = (mem1, e1)"
    by (cases "go_append g mem (Env c) ?vs")
  let ?c1 = "c\<lparr>Name := Sprintf_name_index name i, Env := e1\<rparr>"
  have okc: "slice_ok mem (Env c)" using Cons.prems(1) by simp
  have ext: "extends mem mem1" by (rule go_append_extends [OF okc a])
  note res = go_append_result [OF okc a]
  have sep: "\<forall>d\<in>set cs. separate (Env c) (Env d)" and sorted: "sorted_wrt separate (map Env cs)"
    using Cons.prems(2) by simp_all
  have okcs: "\<forall>d\<in>set cs. slice_ok mem (Env d)" using Cons.prems(1) by simp
  \<comment> \<open>the containers not yet visited read the same\<close>
  have fcs: "elements mem1 (Env d) = elements mem (Env d)" if "d \<in> set cs" for d
  proof -
    have "slice_ok mem (Env d)" "separate (Env c) (Env d)" using that okcs sep by simp_all
    then show ?thesis
      using go_append_frame [OF okc _ _ a] separate_outside by blast
  qed
  \<comment> \<open>the containers of the pod built so far read the same\<close>
  have facc: "elements mem1 (Env b) = elements mem (Env b)" if "b \<in> set acc" for b
  proof -
    have "slice_ok mem (Env b)" "outside_spare (Env c) (Env b)"
      using that Cons.prems(3) by simp_all
    then show ?thesis using go_append_frame [OF okc _ _ a] by blast
  qed
  have p1: "\<forall>d\<in>set cs. slice_ok mem1 (Env d)"
    using okcs slice_ok_extends [OF _ ext] by simp
  have p3: "\<forall>b\<in>set (acc @ [?c1]).
      slice_ok mem1 (Env b) \<and> (\<forall>d\<in>set cs. outside_spare (Env d) (Env b))"
  proof
    fix b
    assume "b \<in> set (acc @ [?c1])"
    then consider "b \<in> set acc" | "b = ?c1" by auto
    then show "slice_ok mem1 (Env b) \<and> (\<forall>d\<in>set cs. outside_spare (Env d) (Env b))"
    proof cases
      case 1
      then show ?thesis using Cons.prems(3) slice_ok_extends [OF _ ext] by simp
    next
      case 2
      have "outside_spare (Env d) e1" if "d \<in> set cs" for d
        using go_append_outside [OF okc _ _ a, of "Env d"] that okcs sep by simp
      then show ?thesis using 2 res by simp
    qed
  qed
  have r: "ProwJobToPod_range g order env name mem1 cs (Suc i) (acc @ [?c1]) = (mem', cs')"
    using Cons.prems(4) a by simp
  have v2: "map (Container_value mem1) acc = map (Container_value mem) acc"
    using facc by (intro map_cong refl Container_value_cong)
  have v3: "Container_value mem1 ?c1 =
      (Container_value mem c)\<lparr>Name := Sprintf_name_index name i,
         Env := elements mem (Env c) @ ?vs\<rparr>"
    using res by (simp add: Container_value_def)
  have v1: "map (\<lambda>k. (Container_value mem1 (cs ! k))
                 \<lparr>Name := Sprintf_name_index name (Suc i + k),
                  Env := elements mem1 (Env (cs ! k)) @ kubeEnv (order (Suc i + k)) env\<rparr>)
       [0..<length cs] =
     map (\<lambda>k. (Container_value mem (cs ! k))
                 \<lparr>Name := Sprintf_name_index name (Suc i + k),
                  Env := elements mem (Env (cs ! k)) @ kubeEnv (order (Suc i + k)) env\<rparr>)
       [0..<length cs]"
  proof (rule map_cong [OF refl])
    fix k
    assume "k \<in> set [0..<length cs]"
    then have "cs ! k \<in> set cs" by simp
    from fcs [OF this]
    show "(Container_value mem1 (cs ! k))
                 \<lparr>Name := Sprintf_name_index name (Suc i + k),
                  Env := elements mem1 (Env (cs ! k)) @ kubeEnv (order (Suc i + k)) env\<rparr> =
       (Container_value mem (cs ! k))
                 \<lparr>Name := Sprintf_name_index name (Suc i + k),
                  Env := elements mem (Env (cs ! k)) @ kubeEnv (order (Suc i + k)) env\<rparr>"
      by (simp add: Container_value_def)
  qed
  have "map (Container_value mem') cs' =
     map (Container_value mem1) (acc @ [?c1]) @
     map (\<lambda>k. (Container_value mem1 (cs ! k))
                 \<lparr>Name := Sprintf_name_index name (Suc i + k),
                  Env := elements mem1 (Env (cs ! k)) @ kubeEnv (order (Suc i + k)) env\<rparr>)
       [0..<length cs]"
    by (rule Cons.IH [OF p1 sorted p3 r])
  also have "\<dots> = map (Container_value mem) acc @
     map (\<lambda>k. (Container_value mem ((c # cs) ! k))
                 \<lparr>Name := Sprintf_name_index name (i + k),
                  Env := elements mem (Env ((c # cs) ! k)) @ kubeEnv (order (i + k)) env\<rparr>)
       [0..<length (c # cs)]"
    unfolding v1 length_Cons map_upt_Suc by (simp add: v2 v3)
  finally show ?case .
qed

lemma ProwJobToPod_separate_containers:
  assumes "EnvForSpec rs (Spec pj) = Inr env0"
    and "\<forall>c\<in>set (Containers (PodSpec (Spec pj))). slice_ok mem (Env c)"
    and "sorted_wrt separate (map Env (Containers (PodSpec (Spec pj))))"
  shows "\<exists>mem' pod. ProwJobToPod g rs order mem pj buildID = Inr (mem', pod) \<and>
    RestartPolicy (PodSpecOf pod) = ''Never'' \<and>
    map (Container_value mem') (Containers (PodSpecOf pod)) =
      map (\<lambda>k. (Container_value mem (Containers (PodSpec (Spec pj)) ! k))
                  \<lparr>Name := MetaName (Metadata pj) @ ''-'' @ Itoa (int k),
                   Env := elements mem (Env (Containers (PodSpec (Spec pj)) ! k)) @
                     kubeEnv (order k) (env0(''BUILD_NUMBER'' \<mapsto> buildID))\<rparr>)
        [0..<length (Containers (PodSpec (Spec pj)))]"
proof -
  let ?cs = "Containers (PodSpec (Spec pj))"
  let ?env = "env0(''BUILD_NUMBER'' \<mapsto> buildID)"
  let ?name = "MetaName (Metadata pj)"
  obtain mem' cs' where
    r: "ProwJobToPod_range g order ?env ?name mem ?cs 0 [] = (mem', cs')"
    by (cases "ProwJobToPod_range g order ?env ?name mem ?cs 0 []")
  from ProwJobToPod_Inr [OF assms(1) r] obtain pod where
    p: "ProwJobToPod g rs order mem pj buildID = Inr (mem', pod)"
    and c: "Containers (PodSpecOf pod) = cs'"
    and n: "RestartPolicy (PodSpecOf pod) = ''Never''"
    by blast
  have v: "map (Container_value mem') cs' =
     map (\<lambda>k. (Container_value mem (?cs ! k))
                 \<lparr>Name := Sprintf_name_index ?name (0 + k),
                  Env := elements mem (Env (?cs ! k)) @ kubeEnv (order (0 + k)) ?env\<rparr>)
       [0..<length ?cs]"
    using ProwJobToPod_range_separate [OF assms(2,3) _ r] by simp
  show ?thesis
    using p n v unfolding c [symmetric] by (simp add: Sprintf_name_index_def)
qed

section \<open>Properties of GetLatestPeriodics\<close>

lemma body_at:
  "GetLatestPeriodics_body m j n =
     (if periodic_named n j \<and> StartTime_at m n < StartTime (Status j) then Some j else m n)"
  by (simp add: GetLatestPeriodics_body_def periodic_named_def After_def Let_def)

lemma StartTime_at_body:
  "StartTime_at (GetLatestPeriodics_body m j) n =
     (if periodic_named n j then max (StartTime_at m n) (StartTime (Status j))
      else StartTime_at m n)"
  by (simp add: StartTime_at_def [of "GetLatestPeriodics_body m j"] body_at)
     (simp add: StartTime_at_def)

lemma loop_StartTime_mono:
  "StartTime_at m n \<le> StartTime_at (foldl GetLatestPeriodics_body m pjs) n"
proof (induction pjs arbitrary: m)
  case Nil
  show ?case by simp
next
  case (Cons j pjs)
  have "StartTime_at m n \<le> StartTime_at (GetLatestPeriodics_body m j) n"
    by (simp add: StartTime_at_body)
  also have "\<dots> \<le> StartTime_at (foldl GetLatestPeriodics_body (GetLatestPeriodics_body m j) pjs) n"
    by (rule Cons.IH)
  finally show ?case by simp
qed

lemma loop_StartTime_upper:
  "j \<in> set pjs \<Longrightarrow> periodic_named n j \<Longrightarrow>
   StartTime (Status j) \<le> StartTime_at (foldl GetLatestPeriodics_body m pjs) n"
proof (induction pjs arbitrary: m)
  case Nil
  then show ?case by simp
next
  case (Cons x pjs)
  show ?case
  proof (cases "j = x")
    case True
    have "StartTime (Status j) \<le> StartTime_at (GetLatestPeriodics_body m x) n"
      using True Cons.prems(2) by (simp add: StartTime_at_body)
    also have "\<dots> \<le> StartTime_at (foldl GetLatestPeriodics_body (GetLatestPeriodics_body m x) pjs) n"
      by (rule loop_StartTime_mono)
    finally show ?thesis by simp
  next
    case False
    then have "j \<in> set pjs" using Cons.prems by simp
    then show ?thesis
      using Cons.IH [OF _ Cons.prems(2)] by simp
  qed
qed

lemma loop_Some:
  "foldl GetLatestPeriodics_body m pjs n = Some j \<Longrightarrow>
   m n = Some j \<or>
   (\<exists>xs ys. pjs = xs @ j # ys \<and> periodic_named n j \<and>
      StartTime_at m n < StartTime (Status j) \<and>
      (\<forall>x\<in>set xs. periodic_named n x \<longrightarrow> StartTime (Status x) < StartTime (Status j)))"
proof (induction pjs arbitrary: m)
  case Nil
  then show ?case by simp
next
  case (Cons x pjs)
  let ?m = "GetLatestPeriodics_body m x"
  from Cons.prems have "foldl GetLatestPeriodics_body ?m pjs n = Some j" by simp
  from Cons.IH [OF this] show ?case
  proof
    assume a: "?m n = Some j"
    show ?thesis
    proof (cases "periodic_named n x \<and> StartTime_at m n < StartTime (Status x)")
      case True
      with a have xj: "x = j" by (simp add: body_at)
      have "x # pjs = [] @ j # pjs \<and> periodic_named n j \<and>
          StartTime_at m n < StartTime (Status j) \<and>
          (\<forall>x\<in>set []. periodic_named n x \<longrightarrow> StartTime (Status x) < StartTime (Status j))"
        using True xj by simp
      then show ?thesis by (intro disjI2 exI)
    next
      case False
      with a show ?thesis by (simp add: body_at)
    qed
  next
    assume "\<exists>xs ys. pjs = xs @ j # ys \<and> periodic_named n j \<and>
        StartTime_at ?m n < StartTime (Status j) \<and>
        (\<forall>x\<in>set xs. periodic_named n x \<longrightarrow> StartTime (Status x) < StartTime (Status j))"
    then obtain xs ys where d: "pjs = xs @ j # ys" "periodic_named n j"
        "StartTime_at ?m n < StartTime (Status j)"
        "\<forall>x\<in>set xs. periodic_named n x \<longrightarrow> StartTime (Status x) < StartTime (Status j)"
      by blast
    have e: "x # pjs = (x # xs) @ j # ys" using d(1) by simp
    have lt: "StartTime_at m n < StartTime (Status j)"
      using d(3) by (simp add: StartTime_at_body split: if_splits)
    have px: "periodic_named n x \<Longrightarrow> StartTime (Status x) < StartTime (Status j)"
      using d(3) by (simp add: StartTime_at_body)
    have "\<forall>y\<in>set (x # xs). periodic_named n y \<longrightarrow> StartTime (Status y) < StartTime (Status j)"
      using d(4) px by simp
    with e d(2) lt have "x # pjs = (x # xs) @ j # ys \<and> periodic_named n j \<and>
          StartTime_at m n < StartTime (Status j) \<and>
          (\<forall>y\<in>set (x # xs). periodic_named n y \<longrightarrow> StartTime (Status y) < StartTime (Status j))"
      by simp
    then show ?thesis by (intro disjI2 exI)
  qed
qed

lemma loop_None:
  "foldl GetLatestPeriodics_body m pjs n = None \<longleftrightarrow>
   m n = None \<and> (\<forall>j\<in>set pjs. periodic_named n j \<longrightarrow> StartTime (Status j) \<le> zero_Time)"
proof (induction pjs arbitrary: m)
  case Nil
  show ?case by simp
next
  case (Cons x pjs)
  have "GetLatestPeriodics_body m x n = None \<longleftrightarrow>
      m n = None \<and> (periodic_named n x \<longrightarrow> StartTime (Status x) \<le> zero_Time)"
    by (auto simp: body_at StartTime_at_def)
  then show ?case using Cons.IH [of "GetLatestPeriodics_body m x"] by simp
qed

lemmas example_eval = example_ProwJob_def GetLatestPeriodics_def GetLatestPeriodics_body_def
  StartTime_at_def After_def zero_Time_def periodic_named_def Let_def

lemma GetLatestPeriodics_Some_mem:
  "GetLatestPeriodics pjs n = Some j \<Longrightarrow>
   j \<in> set pjs \<and> periodic_named n j \<and> zero_Time < StartTime (Status j)"
  unfolding GetLatestPeriodics_def
  by (drule loop_Some) (auto simp: StartTime_at_def)

lemma GetLatestPeriodics_latest:
  assumes "GetLatestPeriodics pjs n = Some j" "x \<in> set pjs" "periodic_named n x"
  shows "StartTime (Status x) \<le> StartTime (Status j)"
  using loop_StartTime_upper [OF assms(2,3), of Map.empty] assms(1)
  by (simp add: GetLatestPeriodics_def StartTime_at_def)

lemma GetLatestPeriodics_None:
  "GetLatestPeriodics pjs n = None \<longleftrightarrow>
   (\<forall>j\<in>set pjs. periodic_named n j \<longrightarrow> StartTime (Status j) \<le> zero_Time)"
  by (simp add: GetLatestPeriodics_def loop_None)

text \<open>
  Claim C1, as stated: of two Periodic instances with the same job name and exactly
  equal start times, the result maps the name to the later one in the input. It fails
  on the input below: the map keeps the first of the two.
\<close>

theorem GetLatestPeriodics_tie_later_counterexample:
  "GetLatestPeriodics
     [example_ProwJob ''first'' PeriodicJob ''foo'' 5 TriggeredState,
      example_ProwJob ''second'' PeriodicJob ''foo'' 5 TriggeredState] ''foo''
   \<noteq> Some (example_ProwJob ''second'' PeriodicJob ''foo'' 5 TriggeredState)"
  by (simp add: example_eval)

text \<open>
  Claim C1, amended: on an exact start-time tie between two Periodic instances of one
  job name the later instance never overwrites. The result for the whole input is the
  result for the input without the later instance; and when the tied start time is after
  the zero instant and every other Periodic instance of that name started strictly
  before it, the name is mapped to the earlier instance of the two.
\<close>

theorem GetLatestPeriodics_tie_keeps_earlier:
  assumes "Type (Spec a) = PeriodicJob" and "Type (Spec b) = PeriodicJob"
    and "Job (Spec a) = Job (Spec b)"
    and "StartTime (Status a) = StartTime (Status b)"
  shows "GetLatestPeriodics (xs @ a # ys @ b # zs) = GetLatestPeriodics (xs @ a # ys @ zs) \<and>
    (zero_Time < StartTime (Status a) \<and>
     (\<forall>x\<in>set (xs @ ys @ zs). periodic_named (Job (Spec a)) x \<longrightarrow>
        StartTime (Status x) < StartTime (Status a))
     \<longrightarrow> GetLatestPeriodics (xs @ a # ys @ b # zs) (Job (Spec a)) = Some a)"
proof -
  let ?n = "Job (Spec a)"
  define m where "m = foldl GetLatestPeriodics_body Map.empty (xs @ a # ys)"
  have pa: "periodic_named ?n a" and pb: "periodic_named ?n b"
    using assms by (simp_all add: periodic_named_def)
  have "StartTime (Status b) \<le> StartTime_at m ?n"
    unfolding m_def
    using loop_StartTime_upper [of a "xs @ a # ys" ?n Map.empty] pa assms(4) by simp
  then have skip: "GetLatestPeriodics_body m b = m"
    using assms(3) by (simp add: GetLatestPeriodics_body_def After_def Let_def)
  have eq: "GetLatestPeriodics (xs @ a # ys @ b # zs) = GetLatestPeriodics (xs @ a # ys @ zs)"
  proof -
    have "GetLatestPeriodics (xs @ a # ys @ b # zs) =
        foldl GetLatestPeriodics_body (GetLatestPeriodics_body m b) zs"
      by (simp add: GetLatestPeriodics_def m_def)
    also have "\<dots> = GetLatestPeriodics (xs @ a # ys @ zs)"
      unfolding skip by (simp add: GetLatestPeriodics_def m_def)
    finally show ?thesis .
  qed
  have win: "GetLatestPeriodics (xs @ a # ys @ zs) ?n = Some a"
    if pos: "zero_Time < StartTime (Status a)"
      and old: "\<forall>x\<in>set (xs @ ys @ zs). periodic_named ?n x \<longrightarrow>
        StartTime (Status x) < StartTime (Status a)"
  proof -
    have "GetLatestPeriodics (xs @ a # ys @ zs) ?n \<noteq> None"
      using pos pa by (auto simp: GetLatestPeriodics_None)
    then obtain j where j: "GetLatestPeriodics (xs @ a # ys @ zs) ?n = Some j" by blast
    have le: "StartTime (Status a) \<le> StartTime (Status j)"
      using GetLatestPeriodics_latest [OF j _ pa] by simp
    have "j \<in> set (xs @ a # ys @ zs)" "periodic_named ?n j"
      using GetLatestPeriodics_Some_mem [OF j] by simp_all
    then have "j = a" using old le by auto
    with j show ?thesis by simp
  qed
  show ?thesis using eq win by simp
qed

theorem GetLatestPeriodics_tie_keeps_earlier_witness:
  "Type (Spec (example_ProwJob ''first'' PeriodicJob ''foo'' 5 TriggeredState)) = PeriodicJob \<and>
   Type (Spec (example_ProwJob ''second'' PeriodicJob ''foo'' 5 TriggeredState)) = PeriodicJob \<and>
   Job (Spec (example_ProwJob ''first'' PeriodicJob ''foo'' 5 TriggeredState)) =
     Job (Spec (example_ProwJob ''second'' PeriodicJob ''foo'' 5 TriggeredState)) \<and>
   StartTime (Status (example_ProwJob ''first'' PeriodicJob ''foo'' 5 TriggeredState)) =
     StartTime (Status (example_ProwJob ''second'' PeriodicJob ''foo'' 5 TriggeredState)) \<and>
   GetLatestPeriodics
     ([] @ example_ProwJob ''first'' PeriodicJob ''foo'' 5 TriggeredState # [] @
      example_ProwJob ''second'' PeriodicJob ''foo'' 5 TriggeredState # []) ''foo''
   = Some (example_ProwJob ''first'' PeriodicJob ''foo'' 5 TriggeredState)"
  using GetLatestPeriodics_tie_keeps_earlier [of "example_ProwJob ''first'' PeriodicJob ''foo'' 5 TriggeredState"
      "example_ProwJob ''second'' PeriodicJob ''foo'' 5 TriggeredState" "[]" "[]" "[]"]
  by (simp add: example_eval)

text \<open>
  Claim C8, as stated: every job name among the Periodic instances of the input is mapped
  to its latest instance. It fails for a name whose only Periodic instance has the zero
  start time: the name is not a key of the result.
\<close>

theorem latest_Periodic_zero_StartTime_counterexample:
  "GetLatestPeriodics [example_ProwJob ''only'' PeriodicJob ''foo'' 0 SuccessState] ''foo'' =
     None"
  by (simp add: example_eval)

text \<open>
  Claim C8, amended: the result holds only Periodic instances of the input, each under
  its own job name and with a start time strictly after the zero instant, and no Periodic
  instance of that name in the input started later; a job name is a key of the result
  exactly when some Periodic instance of that name started strictly after the zero
  instant; and when no two distinct Periodic instances of one name share a start time,
  the result is the same for every reordering of the input.
\<close>

theorem latest_Periodic_per_job_name:
  "(GetLatestPeriodics pjs n = Some j \<longrightarrow>
      j \<in> set pjs \<and> Type (Spec j) = PeriodicJob \<and> Job (Spec j) = n \<and>
      zero_Time < StartTime (Status j) \<and>
      (\<forall>x\<in>set pjs. periodic_named n x \<longrightarrow> StartTime (Status x) \<le> StartTime (Status j))) \<and>
   (n \<in> dom (GetLatestPeriodics pjs) \<longleftrightarrow>
      (\<exists>x\<in>set pjs. periodic_named n x \<and> zero_Time < StartTime (Status x))) \<and>
   (mset pjs' = mset pjs \<and>
    (\<forall>a\<in>set pjs. \<forall>b\<in>set pjs.
       Type (Spec a) = PeriodicJob \<and> Type (Spec b) = PeriodicJob \<and>
       Job (Spec a) = Job (Spec b) \<and> StartTime (Status a) = StartTime (Status b) \<longrightarrow> a = b)
    \<longrightarrow> GetLatestPeriodics pjs' = GetLatestPeriodics pjs)"
proof (intro conjI impI)
  assume j: "GetLatestPeriodics pjs n = Some j"
  from GetLatestPeriodics_Some_mem [OF j]
  show "j \<in> set pjs" "Type (Spec j) = PeriodicJob" "Job (Spec j) = n"
    "zero_Time < StartTime (Status j)"
    by (simp_all add: periodic_named_def)
  show "\<forall>x\<in>set pjs. periodic_named n x \<longrightarrow> StartTime (Status x) \<le> StartTime (Status j)"
    using GetLatestPeriodics_latest [OF j] by blast
next
  have "n \<in> dom (GetLatestPeriodics pjs) \<longleftrightarrow> GetLatestPeriodics pjs n \<noteq> None"
    by (simp add: dom_def)
  also have "\<dots> \<longleftrightarrow> (\<exists>x\<in>set pjs. periodic_named n x \<and> zero_Time < StartTime (Status x))"
    unfolding GetLatestPeriodics_None by (simp add: not_le)
  finally show "n \<in> dom (GetLatestPeriodics pjs) \<longleftrightarrow>
      (\<exists>x\<in>set pjs. periodic_named n x \<and> zero_Time < StartTime (Status x))" .
next
  assume a: "mset pjs' = mset pjs \<and>
    (\<forall>a\<in>set pjs. \<forall>b\<in>set pjs.
       Type (Spec a) = PeriodicJob \<and> Type (Spec b) = PeriodicJob \<and>
       Job (Spec a) = Job (Spec b) \<and> StartTime (Status a) = StartTime (Status b) \<longrightarrow> a = b)"
  then have s: "set pjs' = set pjs" by (metis set_mset_mset)
  from a have inj: "\<And>a b. a \<in> set pjs \<Longrightarrow> b \<in> set pjs \<Longrightarrow> periodic_named k a \<Longrightarrow>
      periodic_named k b \<Longrightarrow> StartTime (Status a) = StartTime (Status b) \<Longrightarrow> a = b" for k
    by (simp add: periodic_named_def)
  show "GetLatestPeriodics pjs' = GetLatestPeriodics pjs"
  proof
    fix k
    show "GetLatestPeriodics pjs' k = GetLatestPeriodics pjs k"
    proof (cases "GetLatestPeriodics pjs k")
      case None
      then have "GetLatestPeriodics pjs' k = None"
        unfolding GetLatestPeriodics_None s .
      with None show ?thesis by simp
    next
      case (Some x)
      then have "GetLatestPeriodics pjs k \<noteq> None" by simp
      then have "GetLatestPeriodics pjs' k \<noteq> None"
        unfolding GetLatestPeriodics_None s .
      then obtain y where y: "GetLatestPeriodics pjs' k = Some y" by blast
      note mx = GetLatestPeriodics_Some_mem [OF Some]
      note my = GetLatestPeriodics_Some_mem [OF y]
      have "StartTime (Status y) \<le> StartTime (Status x)"
        using GetLatestPeriodics_latest [OF Some, of y] my s by simp
      moreover have "StartTime (Status x) \<le> StartTime (Status y)"
        using GetLatestPeriodics_latest [OF y, of x] mx s by simp
      ultimately have "y = x" using inj [of y x k] mx my s by simp
      with y Some show ?thesis by simp
    qed
  qed
qed

theorem latest_Periodic_per_job_name_witness:
  "GetLatestPeriodics
     [example_ProwJob ''b'' PeriodicJob ''foo'' 9 SuccessState,
      example_ProwJob ''p'' PresubmitJob ''bar'' 12 SuccessState,
      example_ProwJob ''a'' PeriodicJob ''foo'' 4 SuccessState] ''foo''
     = Some (example_ProwJob ''b'' PeriodicJob ''foo'' 9 SuccessState) \<and>
   ''foo'' \<in> dom (GetLatestPeriodics
     [example_ProwJob ''b'' PeriodicJob ''foo'' 9 SuccessState,
      example_ProwJob ''p'' PresubmitJob ''bar'' 12 SuccessState,
      example_ProwJob ''a'' PeriodicJob ''foo'' 4 SuccessState]) \<and>
   ''bar'' \<notin> dom (GetLatestPeriodics
     [example_ProwJob ''b'' PeriodicJob ''foo'' 9 SuccessState,
      example_ProwJob ''p'' PresubmitJob ''bar'' 12 SuccessState,
      example_ProwJob ''a'' PeriodicJob ''foo'' 4 SuccessState]) \<and>
   GetLatestPeriodics
     [example_ProwJob ''a'' PeriodicJob ''foo'' 4 SuccessState,
      example_ProwJob ''p'' PresubmitJob ''bar'' 12 SuccessState,
      example_ProwJob ''b'' PeriodicJob ''foo'' 9 SuccessState] =
   GetLatestPeriodics
     [example_ProwJob ''b'' PeriodicJob ''foo'' 9 SuccessState,
      example_ProwJob ''p'' PresubmitJob ''bar'' 12 SuccessState,
      example_ProwJob ''a'' PeriodicJob ''foo'' 4 SuccessState]"
proof -
  let ?b = "example_ProwJob ''b'' PeriodicJob ''foo'' 9 SuccessState"
  let ?p = "example_ProwJob ''p'' PresubmitJob ''bar'' 12 SuccessState"
  let ?a = "example_ProwJob ''a'' PeriodicJob ''foo'' 4 SuccessState"
  have r: "GetLatestPeriodics [?b, ?p, ?a] ''foo'' = Some ?b"
    by (simp add: example_eval)
  have t: "\<forall>x\<in>set [?b, ?p, ?a]. \<forall>y\<in>set [?b, ?p, ?a].
       Type (Spec x) = PeriodicJob \<and> Type (Spec y) = PeriodicJob \<and>
       Job (Spec x) = Job (Spec y) \<and> StartTime (Status x) = StartTime (Status y) \<longrightarrow> x = y"
    by (simp add: example_ProwJob_def)
  have m: "mset [?a, ?p, ?b] = mset [?b, ?p, ?a]" by simp
  have e1: "\<exists>x\<in>set [?b, ?p, ?a]. periodic_named ''foo'' x \<and> zero_Time < StartTime (Status x)"
    by (simp add: example_ProwJob_def periodic_named_def zero_Time_def)
  have e2: "\<not> (\<exists>x\<in>set [?b, ?p, ?a]. periodic_named ''bar'' x \<and> zero_Time < StartTime (Status x))"
    by (simp add: example_ProwJob_def periodic_named_def zero_Time_def)
  note c = latest_Periodic_per_job_name [of "[?b, ?p, ?a]" _ ?b "[?a, ?p, ?b]"]
  show ?thesis
    using r t m e1 e2 c [of "''foo''"] c [of "''bar''"] by blast
qed

text \<open>
  Claim C10: a Periodic instance whose start time is the zero instant is never a value
  of the result. The loop body admits a candidate only when its start time is strictly
  after the stored one, and a missing key reads as the zero instant, so on the empty map
  the body stores nothing; the result for the instance alone has no entry for its job
  name, and a job name whose Periodic instances all have the zero start time is not a key
  of the result.
\<close>

theorem zero_StartTime_never_admitted:
  assumes "Type (Spec j) = PeriodicJob" and "StartTime (Status j) = zero_Time"
  shows "GetLatestPeriodics_body Map.empty j = Map.empty \<and>
    GetLatestPeriodics pjs n \<noteq> Some j \<and>
    GetLatestPeriodics [j] (Job (Spec j)) = None \<and>
    ((\<forall>x\<in>set pjs. periodic_named (Job (Spec j)) x \<longrightarrow> StartTime (Status x) = zero_Time)
      \<longrightarrow> Job (Spec j) \<notin> dom (GetLatestPeriodics pjs))"
proof (intro conjI impI)
  show "GetLatestPeriodics_body Map.empty j = Map.empty"
    using assms by (simp add: GetLatestPeriodics_body_def StartTime_at_def After_def)
  show "GetLatestPeriodics pjs n \<noteq> Some j"
    using GetLatestPeriodics_Some_mem [of pjs n j] assms(2) by auto
  show "GetLatestPeriodics [j] (Job (Spec j)) = None"
    using assms(2) by (simp add: GetLatestPeriodics_None)
next
  assume "\<forall>x\<in>set pjs. periodic_named (Job (Spec j)) x \<longrightarrow> StartTime (Status x) = zero_Time"
  then have "GetLatestPeriodics pjs (Job (Spec j)) = None"
    by (simp add: GetLatestPeriodics_None)
  then show "Job (Spec j) \<notin> dom (GetLatestPeriodics pjs)" by (simp add: dom_def)
qed

theorem zero_StartTime_never_admitted_witness:
  "Type (Spec (example_ProwJob ''z'' PeriodicJob ''nightly'' 0 TriggeredState)) = PeriodicJob \<and>
   StartTime (Status (example_ProwJob ''z'' PeriodicJob ''nightly'' 0 TriggeredState)) = zero_Time \<and>
   GetLatestPeriodics
     [example_ProwJob ''p'' PostsubmitJob ''nightly'' 3 TriggeredState,
      example_ProwJob ''z'' PeriodicJob ''nightly'' 0 TriggeredState] ''nightly''
     \<noteq> Some (example_ProwJob ''z'' PeriodicJob ''nightly'' 0 TriggeredState) \<and>
   ''nightly'' \<notin> dom (GetLatestPeriodics
     [example_ProwJob ''p'' PostsubmitJob ''nightly'' 3 TriggeredState,
      example_ProwJob ''z'' PeriodicJob ''nightly'' 0 TriggeredState])"
proof -
  let ?z = "example_ProwJob ''z'' PeriodicJob ''nightly'' 0 TriggeredState"
  let ?p = "example_ProwJob ''p'' PostsubmitJob ''nightly'' 3 TriggeredState"
  have h1: "Type (Spec ?z) = PeriodicJob" and h2: "StartTime (Status ?z) = zero_Time"
    and n: "Job (Spec ?z) = ''nightly''"
    by (simp_all add: example_ProwJob_def zero_Time_def)
  have h3: "\<forall>x\<in>set [?p, ?z]. periodic_named (Job (Spec ?z)) x \<longrightarrow> StartTime (Status x) = zero_Time"
    by (simp add: example_ProwJob_def zero_Time_def periodic_named_def)
  show ?thesis
    using zero_StartTime_never_admitted [OF h1 h2, of "[?p, ?z]" "''nightly''"] h1 h2 h3 unfolding n by blast
qed

end
